theory Spec2Isabelle
  imports Complex_Main "HOL-Library.Sublist" "HOL-Library.Char_ord" "HOL-Library.List_Lexorder"
    "HOL-Library.Multiset"
begin

section \<open>Python values\<close>

text \<open>
  The evaluation record is whatever \<^verbatim>\<open>json.loads\<close> returned, so its fields are
  dynamically typed. \<open>json\<close> is the type of the Python values that \<^verbatim>\<open>json.loads\<close>
  can produce: \<^verbatim>\<open>None\<close>, \<^verbatim>\<open>bool\<close>, \<^verbatim>\<open>int\<close> (unbounded), \<^verbatim>\<open>float\<close>,
  \<^verbatim>\<open>str\<close>, \<^verbatim>\<open>list\<close> and \<^verbatim>\<open>dict\<close>. A finite float is given by the rational it
  denotes; \<^verbatim>\<open>json.loads\<close> also accepts \<^verbatim>\<open>Infinity\<close>, \<^verbatim>\<open>-Infinity\<close> and \<^verbatim>\<open>NaN\<close>.
  A dict is an association list read by first occurrence of a key (\<open>map_of\<close>).
  A character is a code point below 256.
\<close>

datatype pyfloat = Finite rat | PosInf | NegInf | NaN

datatype json =
    JNull
  | JBool bool
  | JInt int
  | JFloat pyfloat
  | JStr string
  | JArr "json list"
  | JObj "(string \<times> json) list"

type_synonym pydict = "(string \<times> json) list"

datatype error =
    KeyError string
  | TypeError
  | AttributeError
  | CollaboratorError

text \<open>Python truthiness, \<^verbatim>\<open>bool(v)\<close>.\<close>

fun truthy :: "json \<Rightarrow> bool" where
  "truthy JNull = False"
| "truthy (JBool b) = b"
| "truthy (JInt n) = (n \<noteq> 0)"
| "truthy (JFloat f) = (f \<noteq> Finite 0)"
| "truthy (JStr s) = (s \<noteq> [])"
| "truthy (JArr xs) = (xs \<noteq> [])"
| "truthy (JObj d) = (d \<noteq> [])"

text \<open>
  \<^verbatim>\<open>v >= n\<close> for an int \<open>n\<close>: defined on numbers (\<^verbatim>\<open>bool\<close> is a subclass of
  \<^verbatim>\<open>int\<close>), a \<^verbatim>\<open>TypeError\<close> on every other value.
\<close>

fun py_ge :: "json \<Rightarrow> int \<Rightarrow> error + bool" where
  "py_ge (JBool b) n = Inr ((if b then 1 else 0) \<ge> n)"
| "py_ge (JInt i) n = Inr (i \<ge> n)"
| "py_ge (JFloat (Finite q)) n = Inr (q \<ge> of_int n)"
| "py_ge (JFloat PosInf) n = Inr True"
| "py_ge (JFloat NegInf) n = Inr False"
| "py_ge (JFloat NaN) n = Inr False"
| "py_ge JNull n = Inl TypeError"
| "py_ge (JStr s) n = Inl TypeError"
| "py_ge (JArr xs) n = Inl TypeError"
| "py_ge (JObj d) n = Inl TypeError"

text \<open>\<^verbatim>\<open>d.get(k, default)\<close> and \<^verbatim>\<open>k in d\<close> on a dict.\<close>

definition dict_get :: "pydict \<Rightarrow> string \<Rightarrow> json \<Rightarrow> json" where
  "dict_get d k dflt = (case map_of d k of None \<Rightarrow> dflt | Some v \<Rightarrow> v)"

definition dict_has :: "pydict \<Rightarrow> string \<Rightarrow> bool" where
  "dict_has d k = (map_of d k \<noteq> None)"

section \<open>The workflow state\<close>

text \<open>
  \<^verbatim>\<open>QAState\<close> is a \<^verbatim>\<open>TypedDict\<close> with \<^verbatim>\<open>total=False\<close>: every key may be missing.
  A field is \<open>None\<close> when its key is missing. The key \<^verbatim>\<open>evaluation\<close> is declared
  \<^verbatim>\<open>Optional[dict]\<close>: when it is present, a state holds under it either Python's
  \<^verbatim>\<open>None\<close> or a dict, so in a state the field is \<open>None\<close> (the key is missing),
  \<open>Some PyNone\<close> (the key holds \<^verbatim>\<open>None\<close>) or \<open>Some (PyDict d)\<close>. The nodes return
  patches, dicts with some of the same keys; a patch that has the key \<^verbatim>\<open>evaluation\<close>
  holds a dict under it. The record is therefore parametrised by what stands under
  \<^verbatim>\<open>evaluation\<close>. A key missing from a patch leaves the state's value in place.
\<close>

datatype optional_dict = PyNone | PyDict pydict

record 'e QAState =
  question :: "string option"
  draft_answer :: "string option"
  evaluation :: "'e option"
  final_answer :: "string option"
  reflections :: "string list option"
  search_results :: "string option"
  iteration_count :: "int option"
  max_iterations :: "int option"

type_synonym state = "optional_dict QAState"

type_synonym patch = "pydict QAState"

definition empty_patch :: "'e QAState" where
  "empty_patch = \<lparr>question = None, draft_answer = None, evaluation = None,
     final_answer = None, reflections = None, search_results = None,
     iteration_count = None, max_iterations = None\<rparr>"

definition override :: "'a option \<Rightarrow> 'a option \<Rightarrow> 'a option" where
  "override old new = (case new of None \<Rightarrow> old | Some v \<Rightarrow> Some v)"

definition merge_patch :: "state \<Rightarrow> patch \<Rightarrow> state" where
  "merge_patch s p = \<lparr>
     question = override (question s) (question p),
     draft_answer = override (draft_answer s) (draft_answer p),
     evaluation = override (evaluation s) (map_option PyDict (evaluation p)),
     final_answer = override (final_answer s) (final_answer p),
     reflections = override (reflections s) (reflections p),
     search_results = override (search_results s) (search_results p),
     iteration_count = override (iteration_count s) (iteration_count p),
     max_iterations = override (max_iterations s) (max_iterations p)\<rparr>"

text \<open>\<^verbatim>\<open>state.get(key, default)\<close> on the state, and the truthiness of an optional string.\<close>

definition get_or :: "'a option \<Rightarrow> 'a \<Rightarrow> 'a" where
  "get_or v dflt = (case v of None \<Rightarrow> dflt | Some x \<Rightarrow> x)"

definition str_truthy :: "string option \<Rightarrow> bool" where
  "str_truthy v = (case v of None \<Rightarrow> False | Some s \<Rightarrow> s \<noteq> [])"

section \<open>The router\<close>

datatype route = ToSearch | ToReflect | ToFinalize

text \<open>
  \<^verbatim>\<open>should_continue\<close> of \<^verbatim>\<open>graph/workflow.py\<close>. Python's \<^verbatim>\<open>a and b\<close> does not
  evaluate \<^verbatim>\<open>b\<close> when \<^verbatim>\<open>a\<close> is falsy, so the comparison of the score, which raises
  on a value that is not a number, runs only when \<^verbatim>\<open>is_acceptable\<close> is truthy.
  \<^verbatim>\<open>state.get("evaluation", {})\<close> gives the empty dict only when the key is missing;
  when the key holds \<^verbatim>\<open>None\<close> it gives \<^verbatim>\<open>None\<close>, and the first
  \<^verbatim>\<open>evaluation.get\<close>, which comes after the test of the bound, raises an
  \<^verbatim>\<open>AttributeError\<close>.
\<close>

definition acceptable_and_score :: "pydict \<Rightarrow> error + bool" where
  "acceptable_and_score ev =
     (if truthy (dict_get ev ''is_acceptable'' (JBool False))
      then py_ge (dict_get ev ''score'' (JInt 0)) 7
      else Inr False)"

definition should_continue :: "state \<Rightarrow> error + route" where
  "should_continue state =
     (let evaluation_value = get_or (evaluation state) (PyDict []);
          ic = get_or (iteration_count state) 0;
          mi = get_or (max_iterations state) 3
      in if ic \<ge> mi then Inr ToFinalize
         else case evaluation_value of
           PyNone \<Rightarrow> Inl AttributeError
         | PyDict ev \<Rightarrow>
             (case acceptable_and_score ev of
                Inl e \<Rightarrow> Inl e
              | Inr True \<Rightarrow> Inr ToFinalize
              | Inr False \<Rightarrow>
                  if truthy (dict_get ev ''needs_search'' (JBool False))
                     \<and> \<not> str_truthy (search_results state)
                  then Inr ToSearch
                  else Inr ToReflect))"

section \<open>Regular expressions\<close>

text \<open>
  \<^verbatim>\<open>extract_json_from_text\<close> looks for its candidates with \<^verbatim>\<open>re.search\<close>. The
  patterns use literals, character classes, sequencing, the greedy \<^verbatim>\<open>?\<close> and
  \<^verbatim>\<open>*\<close> and the lazy \<^verbatim>\<open>*?\<close>. \<open>ms r s\<close> lists the remainders of \<open>s\<close> after each
  match of \<open>r\<close> at the start of \<open>s\<close>, in the order the backtracking matcher tries
  them: a greedy operator tries the longer match first, a lazy one the shorter. An
  iteration of a star that consumes nothing is not repeated.
\<close>

datatype regex =
    Lit string
  | Cls "char \<Rightarrow> bool"
  | Seq regex regex
  | Opt regex
  | Star regex
  | LazyStar regex

fun ms :: "regex \<Rightarrow> string \<Rightarrow> string list" where
  "ms (Lit l) s = (if prefix l s then [drop (length l) s] else [])"
| "ms (Cls p) s = (case s of [] \<Rightarrow> [] | c # cs \<Rightarrow> if p c then [cs] else [])"
| "ms (Seq a b) s = concat (map (ms b) (ms a s))"
| "ms (Opt a) s = ms a s @ [s]"
| "ms (Star a) s =
     concat (map (ms (Star a)) (filter (\<lambda>t. length t < length s) (ms a s))) @ [s]"
| "ms (LazyStar a) s =
     s # concat (map (ms (LazyStar a)) (filter (\<lambda>t. length t < length s) (ms a s)))"

declare ms.simps [simp del]

text \<open>
  A pattern \<open>pre (grp) post\<close> with one capturing group, matched at the start of \<open>s\<close>:
  the texts of the group, in the matcher's order.
\<close>

definition match_here :: "regex \<Rightarrow> regex \<Rightarrow> regex \<Rightarrow> string \<Rightarrow> string list" where
  "match_here pre grp post s =
     concat (map (\<lambda>s1. concat (map (\<lambda>s2. map (\<lambda>s3. take (length s1 - length s2) s1)
       (ms post s2)) (ms grp s1))) (ms pre s))"

text \<open>
  \<^verbatim>\<open>re.search\<close>: the first match at the leftmost start position where the pattern
  matches; the empty remainder is a start position too.
\<close>

fun re_search :: "regex \<Rightarrow> regex \<Rightarrow> regex \<Rightarrow> string \<Rightarrow> string option" where
  "re_search pre grp post [] =
     (case match_here pre grp post [] of [] \<Rightarrow> None | g # _ \<Rightarrow> Some g)"
| "re_search pre grp post (c # cs) =
     (case match_here pre grp post (c # cs) of
        [] \<Rightarrow> re_search pre grp post cs
      | g # _ \<Rightarrow> Some g)"

text \<open>
  \<^verbatim>\<open>\s\<close> in a \<^verbatim>\<open>str\<close> pattern is Unicode white space: below 256 these are the
  code points 9 to 13, 28 to 32, 133 and 160. The dot matches every character under
  \<^verbatim>\<open>re.DOTALL\<close>.
\<close>

definition is_space :: "char \<Rightarrow> bool" where
  "is_space c = (let n = (of_char c :: nat)
                 in (9 \<le> n \<and> n \<le> 13) \<or> (28 \<le> n \<and> n \<le> 32) \<or> n = 133 \<or> n = 160)"

definition not_brace :: "char \<Rightarrow> bool" where
  "not_brace c = (c \<noteq> CHR ''{'' \<and> c \<noteq> CHR ''}'')"

definition any_char :: "char \<Rightarrow> bool" where
  "any_char c = True"

text \<open>The first pattern, split at its group: \<^verbatim>\<open>```(?:json)?\s*(\{.*?\})\s*```\<close>.\<close>

definition fence_pre :: regex where
  \<open>fence_pre = Seq (Lit ''```'') (Seq (Opt (Lit ''json'')) (Star (Cls is_space)))\<close>

definition fence_grp :: regex where
  "fence_grp = Seq (Lit ''{'') (Seq (LazyStar (Cls any_char)) (Lit ''}''))"

definition fence_post :: regex where
  \<open>fence_post = Seq (Star (Cls is_space)) (Lit ''```'')\<close>

text \<open>The second pattern, whose whole match is used: \<^verbatim>\<open>\{[^{}]*(?:\{[^{}]*\}[^{}]*)*\}\<close>.\<close>

definition brace_inner :: regex where
  "brace_inner = Seq (Lit ''{'') (Seq (Star (Cls not_brace))
                   (Seq (Lit ''}'') (Star (Cls not_brace))))"

definition brace_re :: regex where
  "brace_re = Seq (Lit ''{'') (Seq (Star (Cls not_brace))
                (Seq (Star brace_inner) (Lit ''}'')))"

definition search_fenced :: "string \<Rightarrow> string option" where
  "search_fenced text = re_search fence_pre fence_grp fence_post text"

definition search_braces :: "string \<Rightarrow> string option" where
  "search_braces text = re_search (Lit []) brace_re (Lit []) text"

section \<open>Extraction of the evaluation record\<close>

text \<open>
  \<^verbatim>\<open>extract_json_from_text\<close>. \<^verbatim>\<open>json.loads\<close> is a library function and a parameter
  here: \<open>loads t = None\<close> when it raises on \<open>t\<close> (the bare \<^verbatim>\<open>except\<close> catches every
  exception). The function returns \<^verbatim>\<open>None\<close>, here \<open>JNull\<close>, when no attempt parses.
\<close>

definition extract_json_from_text :: "(string \<Rightarrow> json option) \<Rightarrow> string \<Rightarrow> json" where
  "extract_json_from_text loads text =
     (case (case search_fenced text of None \<Rightarrow> None | Some g \<Rightarrow> loads g) of
        Some j \<Rightarrow> j
      | None \<Rightarrow>
          (case (case search_braces text of None \<Rightarrow> None | Some g \<Rightarrow> loads g) of
             Some j \<Rightarrow> j
           | None \<Rightarrow>
               (case loads text of
                  Some j \<Rightarrow> j
                | None \<Rightarrow> JNull)))"

section \<open>A JSON reader for the examples\<close>

text \<open>
  Every general statement below holds for an arbitrary \<open>loads\<close>. The closed examples
  need the value of \<^verbatim>\<open>json.loads\<close> on a concrete text: \<open>json_loads\<close> follows the
  grammar of Python's decoder (white space, \<^verbatim>\<open>null\<close>, \<^verbatim>\<open>true\<close>, \<^verbatim>\<open>false\<close>,
  \<^verbatim>\<open>NaN\<close>, \<^verbatim>\<open>Infinity\<close>, integers, strings with the one-letter escapes, arrays and
  objects, where a repeated key keeps its place and takes the later value) on the
  fragment without \<^verbatim>\<open>\u\<close> escapes and without numbers that have a fraction or an
  exponent. It is used on texts of that fragment only. The fuel bounds the number of
  nested values and of items.
\<close>

definition is_json_ws :: "char \<Rightarrow> bool" where
  "is_json_ws c = (c = CHR '' '' \<or> c = CHR 0x09 \<or> c = CHR 0x0A \<or> c = CHR 0x0D)"

definition skip_ws :: "string \<Rightarrow> string" where
  "skip_ws s = dropWhile is_json_ws s"

definition is_digit :: "char \<Rightarrow> bool" where
  "is_digit c = (48 \<le> (of_char c :: nat) \<and> (of_char c :: nat) \<le> 57)"

definition unescape :: "char \<Rightarrow> char option" where
  "unescape e =
     (if e = CHR 0x22 then Some (CHR 0x22)
      else if e = CHR 0x5C then Some (CHR 0x5C)
      else if e = CHR ''/'' then Some (CHR ''/'')
      else if e = CHR ''b'' then Some (CHR 0x08)
      else if e = CHR ''f'' then Some (CHR 0x0C)
      else if e = CHR ''n'' then Some (CHR 0x0A)
      else if e = CHR ''r'' then Some (CHR 0x0D)
      else if e = CHR ''t'' then Some (CHR 0x09)
      else None)"

fun scanstring :: "string \<Rightarrow> string \<Rightarrow> (string \<times> string) option" where
  "scanstring [] acc = None"
| "scanstring (c # r) acc =
     (if c = CHR 0x22 then Some (acc, r)
      else if c = CHR 0x5C then
        (case r of
           [] \<Rightarrow> None
         | e # r' \<Rightarrow>
             (case unescape e of
                None \<Rightarrow> None
              | Some ch \<Rightarrow> scanstring r' (acc @ [ch])))
      else if (of_char c :: nat) < 32 then None
      else scanstring r (acc @ [c]))"

definition nat_of_digits :: "string \<Rightarrow> nat" where
  "nat_of_digits ds = foldl (\<lambda>a c. 10 * a + (of_char c - 48)) 0 ds"

definition scan_nat :: "string \<Rightarrow> (nat \<times> string) option" where
  "scan_nat s =
     (case s of
        [] \<Rightarrow> None
      | c # r \<Rightarrow>
          if c = CHR ''0'' then Some (0, r)
          else if is_digit c then Some (nat_of_digits (takeWhile is_digit s), dropWhile is_digit s)
          else None)"

definition scan_number :: "string \<Rightarrow> (json \<times> string) option" where
  "scan_number s =
     (case (case s of
              [] \<Rightarrow> None
            | c # r \<Rightarrow>
                if c = CHR ''-'' then
                  (case scan_nat r of None \<Rightarrow> None | Some (n, r') \<Rightarrow> Some (- int n, r'))
                else (case scan_nat s of None \<Rightarrow> None | Some (n, r') \<Rightarrow> Some (int n, r'))) of
        None \<Rightarrow> None
      | Some (i, r) \<Rightarrow>
          (case r of
             [] \<Rightarrow> Some (JInt i, r)
           | d # _ \<Rightarrow> if d = CHR ''.'' \<or> d = CHR ''e'' \<or> d = CHR ''E'' then None
                      else Some (JInt i, r)))"

text \<open>\<^verbatim>\<open>d[k] = v\<close>: a key already present keeps its position.\<close>

fun dict_set :: "pydict \<Rightarrow> string \<Rightarrow> json \<Rightarrow> pydict" where
  "dict_set [] k v = [(k, v)]"
| "dict_set ((k', v') # d) k v = (if k' = k then (k, v) # d else (k', v') # dict_set d k v)"

fun parse_value :: "nat \<Rightarrow> string \<Rightarrow> (json \<times> string) option"
  and parse_array_items :: "nat \<Rightarrow> string \<Rightarrow> json list \<Rightarrow> (json \<times> string) option"
  and parse_object_items :: "nat \<Rightarrow> string \<Rightarrow> pydict \<Rightarrow> (json \<times> string) option" where
  "parse_value 0 s = None"
| "parse_value (Suc n) s =
     (case s of
        [] \<Rightarrow> None
      | c # r \<Rightarrow>
          if c = CHR 0x22 then
            (case scanstring r [] of None \<Rightarrow> None | Some (str, r') \<Rightarrow> Some (JStr str, r'))
          else if c = CHR ''{'' then
            (case skip_ws r of
               [] \<Rightarrow> None
             | c' # r' \<Rightarrow> if c' = CHR ''}'' then Some (JObj [], r')
                          else parse_object_items n (c' # r') [])
          else if c = CHR ''['' then
            (case skip_ws r of
               [] \<Rightarrow> None
             | c' # r' \<Rightarrow> if c' = CHR '']'' then Some (JArr [], r')
                          else parse_array_items n (c' # r') [])
          else if prefix ''null'' s then Some (JNull, drop 4 s)
          else if prefix ''true'' s then Some (JBool True, drop 4 s)
          else if prefix ''false'' s then Some (JBool False, drop 5 s)
          else (case scan_number s of
                  Some res \<Rightarrow> Some res
                | None \<Rightarrow>
                    if prefix ''NaN'' s then Some (JFloat NaN, drop 3 s)
                    else if prefix ''Infinity'' s then Some (JFloat PosInf, drop 8 s)
                    else if prefix ''-Infinity'' s then Some (JFloat NegInf, drop 9 s)
                    else None))"
| "parse_array_items 0 s acc = None"
| "parse_array_items (Suc n) s acc =
     (case parse_value n s of
        None \<Rightarrow> None
      | Some (v, r) \<Rightarrow>
          (case skip_ws r of
             [] \<Rightarrow> None
           | c # r' \<Rightarrow>
               if c = CHR '']'' then Some (JArr (acc @ [v]), r')
               else if c = CHR '','' then parse_array_items n (skip_ws r') (acc @ [v])
               else None))"
| "parse_object_items 0 s acc = None"
| "parse_object_items (Suc n) s acc =
     (case s of
        [] \<Rightarrow> None
      | q # r \<Rightarrow>
          if q \<noteq> CHR 0x22 then None
          else
            (case scanstring r [] of
               None \<Rightarrow> None
             | Some (k, r1) \<Rightarrow>
                 (case skip_ws r1 of
                    [] \<Rightarrow> None
                  | c # r2 \<Rightarrow>
                      if c \<noteq> CHR '':'' then None
                      else
                        (case parse_value n (skip_ws r2) of
                           None \<Rightarrow> None
                         | Some (v, r3) \<Rightarrow>
                             (case skip_ws r3 of
                                [] \<Rightarrow> None
                              | c' # r4 \<Rightarrow>
                                  if c' = CHR ''}'' then Some (JObj (dict_set acc k v), r4)
                                  else if c' = CHR '','' then
                                    parse_object_items n (skip_ws r4) (dict_set acc k v)
                                  else None)))))"

definition json_loads :: "string \<Rightarrow> json option" where
  "json_loads s =
     (case parse_value (Suc (length s)) (skip_ws s) of
        None \<Rightarrow> None
      | Some (v, r) \<Rightarrow> if skip_ws r = [] then Some v else None)"

section \<open>The collaborators\<close>

text \<open>
  The language model, the search tool and \<^verbatim>\<open>json.loads\<close> are not part of the
  repository. The model and the search tool may answer differently at every call, so
  they take the number of the step that calls them; \<open>Inl\<close> is an exception they raise.
  A search hit is a dict read with \<^verbatim>\<open>result.get('content', '')\<close> and
  \<^verbatim>\<open>result.get('url', 'N/A')\<close>.
\<close>

record hit =
  content :: "string option"
  url :: "string option"

record env =
  llm_invoke :: "nat \<Rightarrow> rat \<Rightarrow> string \<Rightarrow> error + string"
  search_create :: "nat \<Rightarrow> error option"
  search_invoke :: "nat \<Rightarrow> string \<Rightarrow> error + hit list"
  json_decode :: "string \<Rightarrow> json option"

section \<open>Strings\<close>

fun str_nat :: "nat \<Rightarrow> string" where
  "str_nat n =
     (if n < 10 then [char_of (48 + n)]
      else str_nat (n div 10) @ [char_of (48 + n mod 10)])"

declare str_nat.simps [simp del]

definition str_int :: "int \<Rightarrow> string" where
  "str_int i = (if i < 0 then CHR ''-'' # str_nat (nat (- i)) else str_nat (nat i))"

text \<open>\<^verbatim>\<open>sep.join(xs)\<close> on a list of strings.\<close>

fun join :: "string \<Rightarrow> string list \<Rightarrow> string" where
  "join sep [] = []"
| "join sep [x] = x"
| "join sep (x # y # ys) = x @ sep @ join sep (y # ys)"

section \<open>The nodes\<close>

subsection \<open>\<^verbatim>\<open>generate_answer_node\<close>\<close>

definition generate_prompt :: "state \<Rightarrow> string \<Rightarrow> string" where
  "generate_prompt state q =
     (let context =
            (if str_truthy (search_results state)
             then ''\<newline>\<newline>Search Results:\<newline>'' @ get_or (search_results state) [] @ ''\<newline>\<newline>''
             else []);
          reflection_context =
            (if get_or (reflections state) [] \<noteq> []
             then ''\<newline>\<newline>Previous Reflections:\<newline>''
                  @ join ''\<newline>'' (map (\<lambda>r. ''- '' @ r) (get_or (reflections state) []))
             else [])
      in ''Provide a detailed, accurate answer to this question:'' @ context
         @ reflection_context @ ''\<newline>Question: '' @ q @ ''\<newline>\<newline>Answer:'')"

definition generate_answer_node :: "env \<Rightarrow> nat \<Rightarrow> state \<Rightarrow> error + patch" where
  "generate_answer_node e k state =
     (case question state of
        None \<Rightarrow> Inl (KeyError ''question'')
      | Some q \<Rightarrow>
          (case llm_invoke e k (7 / 10) (generate_prompt state q) of
             Inl err \<Rightarrow> Inl err
           | Inr draft \<Rightarrow>
               Inr (empty_patch\<lparr>draft_answer := Some draft,
                      iteration_count := Some (get_or (iteration_count state) 0 + 1)\<rparr>)))"

subsection \<open>\<^verbatim>\<open>search_tool_node\<close>\<close>

fun format_hits :: "nat \<Rightarrow> hit list \<Rightarrow> string list" where
  "format_hits idx [] = []"
| "format_hits idx (r # rs) =
     (str_nat idx @ ''. '' @ get_or (content r) [] @ ''\<newline>Source: '' @ get_or (url r) ''N/A'')
       # format_hits (Suc idx) rs"

text \<open>
  The node first constructs the tool object, \<^verbatim>\<open>TavilySearchResults(max_results=3,
  search_depth="advanced")\<close>, then reads the question, both before the \<^verbatim>\<open>try\<close>: an
  exception of the constructor (it raises when no API key is configured) and a missing
  question leave the node as exceptions. The call of the tool and the formatting are
  inside the \<^verbatim>\<open>try\<close>, and \<^verbatim>\<open>except Exception\<close> turns an exception into the
  sentinel.
\<close>

definition search_tool_node :: "env \<Rightarrow> nat \<Rightarrow> state \<Rightarrow> error + patch" where
  "search_tool_node e k state =
     (case search_create e k of
        Some err \<Rightarrow> Inl err
      | None \<Rightarrow>
          (case question state of
             None \<Rightarrow> Inl (KeyError ''question'')
           | Some q \<Rightarrow>
               (case search_invoke e k q of
                  Inl err \<Rightarrow> Inr (empty_patch\<lparr>search_results := Some ''Search unavailable''\<rparr>)
                | Inr results \<Rightarrow>
                    Inr (empty_patch\<lparr>search_results :=
                           Some (join ''\<newline>\<newline>'' (format_hits 1 results))\<rparr>))))"

subsection \<open>\<^verbatim>\<open>evaluate_answer_node\<close>\<close>

definition evaluation_prompt :: "string \<Rightarrow> string \<Rightarrow> string" where
  \<open>evaluation_prompt q d =
     ''You must respond with ONLY a JSON object, no other text.\<newline>\<newline>Question: '' @ q
     @ ''\<newline>\<newline>Answer to evaluate: '' @ d
     @ ''\<newline>\<newline>Respond with this exact JSON structure:\<newline>{\<newline>''
     @ ''    "score": 8,\<newline>''
     @ ''    "is_acceptable": true,\<newline>''
     @ ''    "strengths": ["clear explanation", "good examples"],\<newline>''
     @ ''    "weaknesses": ["could add more detail"],\<newline>''
     @ ''    "suggestions": ["add code examples"],\<newline>''
     @ ''    "needs_search": false\<newline>''
     @ ''}\<newline>\<newline>Rules:\<newline>''
     @ ''- score: number from 1-10\<newline>''
     @ ''- is_acceptable: true if score >= 7, false otherwise\<newline>''
     @ ''- strengths: list of 1-3 good points\<newline>''
     @ ''- weaknesses: list of 1-3 weak points (empty list if none)\<newline>''
     @ ''- suggestions: list of 1-3 improvements (empty list if none)\<newline>''
     @ ''- needs_search: true only if answer lacks current information\<newline>\<newline>''
     @ ''Return ONLY the JSON object, nothing else:''\<close>

text \<open>
  \<^verbatim>\<open>k in v\<close> for a string \<open>k\<close>: a key of a dict, an element of a list, a substring
  of a string; a \<^verbatim>\<open>TypeError\<close> on \<^verbatim>\<open>None\<close>, a bool or a number.
\<close>

fun py_contains :: "json \<Rightarrow> string \<Rightarrow> error + bool" where
  "py_contains (JObj d) k = Inr (dict_has d k)"
| "py_contains (JArr xs) k = Inr (JStr k \<in> set xs)"
| "py_contains (JStr s) k = Inr (sublist k s)"
| "py_contains JNull k = Inl TypeError"
| "py_contains (JBool b) k = Inl TypeError"
| "py_contains (JInt i) k = Inl TypeError"
| "py_contains (JFloat f) k = Inl TypeError"

text \<open>
  \<^verbatim>\<open>all(k in evaluation for k in ["score", "is_acceptable"])\<close> stops at the first key
  that is missing.
\<close>

definition has_required_keys :: "json \<Rightarrow> error + bool" where
  "has_required_keys v =
     (case py_contains v ''score'' of
        Inl err \<Rightarrow> Inl err
      | Inr False \<Rightarrow> Inr False
      | Inr True \<Rightarrow> py_contains v ''is_acceptable'')"

definition fallback_score :: "string \<Rightarrow> int" where
  "fallback_score draft = min 10 (max 5 (int (length draft) div 200))"

definition fallback_evaluation :: "state \<Rightarrow> string \<Rightarrow> pydict" where
  "fallback_evaluation state draft =
     (let iteration = get_or (iteration_count state) 1;
          fs = fallback_score draft
      in [(''score'', JInt fs),
          (''is_acceptable'', JBool (iteration \<ge> 2 \<or> fs \<ge> 7)),
          (''strengths'', JArr [JStr ''Answer provided'']),
          (''weaknesses'', JArr (if fs \<ge> 7 then [] else [JStr ''Could be more detailed''])),
          (''suggestions'', JArr (if fs \<ge> 7 then [] else [JStr ''Add more examples''])),
          (''needs_search'', JBool False)])"

text \<open>
  What the node does with the extracted value. In the accepting branch the node reads
  \<^verbatim>\<open>evaluation['score']\<close>, which raises on a list or a string.
\<close>

definition accept_or_fallback :: "state \<Rightarrow> string \<Rightarrow> json \<Rightarrow> error + patch" where
  "accept_or_fallback state draft ev =
     (if truthy ev then
        (case has_required_keys ev of
           Inl err \<Rightarrow> Inl err
         | Inr True \<Rightarrow>
             (case ev of
                JObj d \<Rightarrow> Inr (empty_patch\<lparr>evaluation := Some d\<rparr>)
              | _ \<Rightarrow> Inl TypeError)
         | Inr False \<Rightarrow>
             Inr (empty_patch\<lparr>evaluation := Some (fallback_evaluation state draft)\<rparr>))
      else Inr (empty_patch\<lparr>evaluation := Some (fallback_evaluation state draft)\<rparr>))"

definition evaluate_answer_node :: "env \<Rightarrow> nat \<Rightarrow> state \<Rightarrow> error + patch" where
  "evaluate_answer_node e k state =
     (case question state of
        None \<Rightarrow> Inl (KeyError ''question'')
      | Some q \<Rightarrow>
          (case draft_answer state of
             None \<Rightarrow> Inl (KeyError ''draft_answer'')
           | Some d \<Rightarrow>
               (case llm_invoke e k 0 (evaluation_prompt q d) of
                  Inl err \<Rightarrow> Inl err
                | Inr response \<Rightarrow>
                    accept_or_fallback state d
                      (extract_json_from_text (json_decode e) response))))"

subsection \<open>\<^verbatim>\<open>reflection_node\<close>\<close>

text \<open>The keys of a dict in insertion order, as iterating over it yields them.\<close>

fun dict_keys :: "pydict \<Rightarrow> string list" where
  "dict_keys [] = []"
| "dict_keys ((k, v) # d) = k # filter (\<lambda>k'. k' \<noteq> k) (dict_keys d)"

fun str_items :: "json list \<Rightarrow> error + string list" where
  "str_items [] = Inr []"
| "str_items (JStr s # xs) =
     (case str_items xs of Inl err \<Rightarrow> Inl err | Inr ys \<Rightarrow> Inr (s # ys))"
| "str_items (_ # xs) = Inl TypeError"

text \<open>
  \<^verbatim>\<open>', '.join(v)\<close>: over the items of a list, which must all be strings, over the
  characters of a string, over the keys of a dict; a \<^verbatim>\<open>TypeError\<close> otherwise.
\<close>

fun py_join :: "json \<Rightarrow> error + string" where
  "py_join (JArr xs) =
     (case str_items xs of Inl err \<Rightarrow> Inl err | Inr ys \<Rightarrow> Inr (join '', '' ys))"
| "py_join (JStr s) = Inr (join '', '' (map (\<lambda>c. [c]) s))"
| "py_join (JObj d) = Inr (join '', '' (dict_keys d))"
| "py_join _ = Inl TypeError"

text \<open>
  The node reads \<^verbatim>\<open>state.get("evaluation", {})\<close> and calls \<^verbatim>\<open>get\<close> on it, an
  \<^verbatim>\<open>AttributeError\<close> when the key holds \<^verbatim>\<open>None\<close>.
\<close>

definition reflection_node :: "state \<Rightarrow> error + patch" where
  "reflection_node state =
     (case get_or (evaluation state) (PyDict []) of
        PyNone \<Rightarrow> Inl AttributeError
      | PyDict ev \<Rightarrow>
          (let old = get_or (reflections state) [];
               w = dict_get ev ''weaknesses'' JNull;
               sg = dict_get ev ''suggestions'' JNull;
               r0 = ''Iteration '' @ str_int (get_or (iteration_count state) 0) @ '': ''
           in case (if truthy w
                    then (case py_join w of
                            Inl err \<Rightarrow> Inl err
                          | Inr t \<Rightarrow> Inr (r0 @ ''Address: '' @ t @ ''. ''))
                    else Inr r0) of
                Inl err \<Rightarrow> Inl err
              | Inr r1 \<Rightarrow>
                  (case (if truthy sg
                         then (case py_join sg of
                                 Inl err \<Rightarrow> Inl err
                               | Inr t \<Rightarrow> Inr (r1 @ ''Improve: '' @ t))
                         else Inr r1) of
                     Inl err \<Rightarrow> Inl err
                   | Inr r2 \<Rightarrow>
                       (let r3 = (if \<not> truthy w \<and> \<not> truthy sg
                                  then r2 @ ''Continue improving clarity and completeness''
                                  else r2)
                        in Inr (empty_patch\<lparr>reflections := Some (old @ [r3])\<rparr>)))))"

subsection \<open>\<^verbatim>\<open>finalize_answer_node\<close>\<close>

definition finalize_prompt :: "string \<Rightarrow> string \<Rightarrow> string" where
  "finalize_prompt q d =
     ''Polish this answer for final presentation. Make it clear, concise, and well-structured.''
     @ ''\<newline>\<newline>Question: '' @ q @ ''\<newline>\<newline>Draft Answer: '' @ d
     @ ''\<newline>\<newline>Provide the final polished answer:''"

definition finalize_answer_node :: "env \<Rightarrow> nat \<Rightarrow> state \<Rightarrow> error + patch" where
  "finalize_answer_node e k state =
     (case question state of
        None \<Rightarrow> Inl (KeyError ''question'')
      | Some q \<Rightarrow>
          (case draft_answer state of
             None \<Rightarrow> Inl (KeyError ''draft_answer'')
           | Some d \<Rightarrow>
               (case llm_invoke e k (3 / 10) (finalize_prompt q d) of
                  Inl err \<Rightarrow> Inl err
                | Inr final \<Rightarrow> Inr (empty_patch\<lparr>final_answer := Some final\<rparr>))))"

section \<open>The engine\<close>

text \<open>
  \<^verbatim>\<open>build_workflow\<close> fixes the graph: the run starts at \<^verbatim>\<open>generate_answer\<close>, which
  leads to \<^verbatim>\<open>evaluate\<close>; the router picks \<^verbatim>\<open>search\<close>, \<^verbatim>\<open>reflect\<close> or
  \<^verbatim>\<open>finalize\<close>; \<^verbatim>\<open>search\<close> and \<^verbatim>\<open>reflect\<close> lead back to \<^verbatim>\<open>generate_answer\<close>
  and \<^verbatim>\<open>finalize\<close> ends the run. The patch of a node is merged into the state. An
  exception of a node or of the router aborts the run. The engine runs a bounded number
  of steps, the fuel; the trace lists the nodes invoked, in order.
\<close>

datatype node = Generate | Evaluate | Search | Reflect | Finalize

datatype outcome =
    Finished state "node list"
  | Aborted error "node list"
  | OutOfSteps "node list"

definition run_node :: "env \<Rightarrow> nat \<Rightarrow> node \<Rightarrow> state \<Rightarrow> error + patch" where
  "run_node e k nd state =
     (case nd of
        Generate \<Rightarrow> generate_answer_node e k state
      | Evaluate \<Rightarrow> evaluate_answer_node e k state
      | Search \<Rightarrow> search_tool_node e k state
      | Reflect \<Rightarrow> reflection_node state
      | Finalize \<Rightarrow> finalize_answer_node e k state)"

fun run_from :: "env \<Rightarrow> nat \<Rightarrow> node \<Rightarrow> state \<Rightarrow> node list \<Rightarrow> outcome" where
  "run_from e 0 nd state tr = OutOfSteps tr"
| "run_from e (Suc fuel) nd state tr =
     (case run_node e (length tr) nd state of
        Inl err \<Rightarrow> Aborted err (tr @ [nd])
      | Inr patch \<Rightarrow>
          (let state' = merge_patch state patch; tr' = tr @ [nd]
           in case nd of
                Generate \<Rightarrow> run_from e fuel Evaluate state' tr'
              | Evaluate \<Rightarrow>
                  (case should_continue state' of
                     Inl err \<Rightarrow> Aborted err tr'
                   | Inr ToSearch \<Rightarrow> run_from e fuel Search state' tr'
                   | Inr ToReflect \<Rightarrow> run_from e fuel Reflect state' tr'
                   | Inr ToFinalize \<Rightarrow> run_from e fuel Finalize state' tr')
              | Search \<Rightarrow> run_from e fuel Generate state' tr'
              | Reflect \<Rightarrow> run_from e fuel Generate state' tr'
              | Finalize \<Rightarrow> Finished state' tr'))"

definition run :: "env \<Rightarrow> nat \<Rightarrow> state \<Rightarrow> outcome" where
  "run e fuel state = run_from e fuel Generate state []"

fun trace_of :: "outcome \<Rightarrow> node list" where
  "trace_of (Finished state tr) = tr"
| "trace_of (Aborted err tr) = tr"
| "trace_of (OutOfSteps tr) = tr"

section \<open>The session store\<close>

text \<open>
  \<^verbatim>\<open>MemoryManager\<close> of \<^verbatim>\<open>graph/memory.py\<close>. The file \<^verbatim>\<open>sessions.json\<close> holds
  the list under the key \<^verbatim>\<open>"sessions"\<close>, or does not exist. The clock is read by the
  caller here: \<^verbatim>\<open>create_session\<close> takes the two formatted readings of
  \<^verbatim>\<open>datetime.now()\<close>, the identifier and the ISO timestamp, and \<^verbatim>\<open>log_state\<close> takes
  one. A session that \<^verbatim>\<open>_load_session\<close> did not find is a skeleton without
  timestamp and question, so these are optional. \<^verbatim>\<open>run_qa_workflow\<close> of
  \<^verbatim>\<open>2main.py\<close> passes to \<^verbatim>\<open>log_state\<close> the patch that a node returned, which is
  what \<^verbatim>\<open>workflow.stream\<close> yields.
\<close>

record log_entry =
  entry_timestamp :: string
  entry_node :: string
  entry_iteration :: int
  has_draft :: bool
  has_evaluation :: bool
  has_search :: bool
  entry_reflection_count :: nat
  evaluation_score :: json

record session_metadata =
  total_iterations :: "int option"
  search_used :: "bool option"
  reflection_count :: "nat option"

record complete_snapshot =
  snap_question :: "string option"
  snap_final_answer :: "string option"
  snap_iterations :: "int option"
  snap_reflections :: "string list"
  snap_evaluation :: "optional_dict option"

record session =
  session_id :: string
  timestamp :: "string option"
  session_question :: "string option"
  states :: "log_entry list"
  session_final_answer :: "string option"
  metadata :: session_metadata
  complete_state :: "complete_snapshot option"

record manager =
  current_session_id :: "string option"
  session_file :: "session list option"

text \<open>\<^verbatim>\<open>_save_session\<close>: the first session with the same identifier is replaced.\<close>

fun replace_session :: "session \<Rightarrow> session list \<Rightarrow> session list option" where
  "replace_session sd [] = None"
| "replace_session sd (x # xs) =
     (if session_id x = session_id sd then Some (sd # xs)
      else (case replace_session sd xs of None \<Rightarrow> None | Some ys \<Rightarrow> Some (x # ys)))"

definition save_session :: "session list option \<Rightarrow> session \<Rightarrow> session list option" where
  "save_session file sd =
     (let all_sessions = get_or file []
      in case replace_session sd all_sessions of
           Some updated \<Rightarrow> Some updated
         | None \<Rightarrow> Some (all_sessions @ [sd]))"

definition skeleton :: "string \<Rightarrow> session" where
  "skeleton sid = \<lparr>session_id = sid, timestamp = None, session_question = None, states = [],
     session_final_answer = None,
     metadata = \<lparr>total_iterations = None, search_used = None, reflection_count = None\<rparr>,
     complete_state = None\<rparr>"

definition load_session :: "session list option \<Rightarrow> string \<Rightarrow> session" where
  "load_session file sid =
     (case find (\<lambda>x. session_id x = sid) (get_or file []) of
        Some x \<Rightarrow> x
      | None \<Rightarrow> skeleton sid)"

definition create_session :: "manager \<Rightarrow> string \<Rightarrow> string \<Rightarrow> string \<Rightarrow> manager" where
  "create_session m sid now q =
     \<lparr>current_session_id = Some sid,
      session_file = save_session (session_file m)
        \<lparr>session_id = sid, timestamp = Some now, session_question = Some q, states = [],
         session_final_answer = None,
         metadata = \<lparr>total_iterations = Some 0, search_used = Some False,
                      reflection_count = Some 0\<rparr>,
         complete_state = None\<rparr>\<rparr>"

definition log_state :: "manager \<Rightarrow> string \<Rightarrow> string \<Rightarrow> patch \<Rightarrow> manager" where
  "log_state m now node_name state =
     (if \<not> str_truthy (current_session_id m) then m
      else
        (let sd = load_session (session_file m) (get_or (current_session_id m) []);
             state_entry =
               \<lparr>entry_timestamp = now, entry_node = node_name,
                entry_iteration = get_or (iteration_count state) 0,
                has_draft = str_truthy (draft_answer state),
                has_evaluation = (get_or (evaluation state) [] \<noteq> []),
                has_search = str_truthy (search_results state),
                entry_reflection_count = length (get_or (reflections state) []),
                evaluation_score = dict_get (get_or (evaluation state) []) ''score'' JNull\<rparr>
         in m\<lparr>session_file := save_session (session_file m)
                (sd\<lparr>states := states sd @ [state_entry],
                    metadata := \<lparr>total_iterations = Some (get_or (iteration_count state) 0),
                                 search_used = Some (str_truthy (search_results state)),
                                 reflection_count =
                                   Some (length (get_or (reflections state) []))\<rparr>\<rparr>)\<rparr>))"

definition save_final_answer :: "manager \<Rightarrow> string \<Rightarrow> state \<Rightarrow> manager" where
  "save_final_answer m answer full_state =
     (if \<not> str_truthy (current_session_id m) then m
      else
        (let sd = load_session (session_file m) (get_or (current_session_id m) [])
         in m\<lparr>session_file := save_session (session_file m)
                (sd\<lparr>session_final_answer := Some answer,
                    complete_state := Some
                      \<lparr>snap_question = question full_state,
                       snap_final_answer = final_answer full_state,
                       snap_iterations = iteration_count full_state,
                       snap_reflections = get_or (reflections full_state) [],
                       snap_evaluation = evaluation full_state\<rparr>\<rparr>)\<rparr>))"

text \<open>
  \<^verbatim>\<open>list.sort(key=..., reverse=True)\<close> is stable: sessions with equal timestamps keep
  their order. Strings compare by code point, position by position.
\<close>

definition ts_key :: "session \<Rightarrow> string" where
  "ts_key x = get_or (timestamp x) []"

fun insert_desc :: "session \<Rightarrow> session list \<Rightarrow> session list" where
  "insert_desc x [] = [x]"
| "insert_desc x (y # ys) =
     (if ts_key y \<le> ts_key x then x # y # ys else y # insert_desc x ys)"

definition sort_desc :: "session list \<Rightarrow> session list" where
  "sort_desc xs = foldr insert_desc xs []"

text \<open>\<^verbatim>\<open>xs[:limit]\<close>: a negative limit counts from the end.\<close>

definition py_slice_to :: "int \<Rightarrow> 'a list \<Rightarrow> 'a list" where
  "py_slice_to limit xs =
     (if limit \<ge> 0 then take (nat limit) xs
      else take (nat (int (length xs) + limit)) xs)"

text \<open>
  \<^verbatim>\<open>get_session_history\<close>: the key function reads \<^verbatim>\<open>x["timestamp"]\<close> of every
  session, a \<^verbatim>\<open>KeyError\<close> on a session without one.
\<close>

definition get_session_history :: "manager \<Rightarrow> int \<Rightarrow> error + session list" where
  "get_session_history m limit =
     (let all_sessions = get_or (session_file m) []
      in if list_ex (\<lambda>x. timestamp x = None) all_sessions then Inl (KeyError ''timestamp'')
         else Inr (py_slice_to limit (sort_desc all_sessions)))"

section \<open>The specification's reading of the router\<close>

text \<open>
  The values on which \<^verbatim>\<open>>=\<close> is defined, the decision order in the words of the
  specification (\<^verbatim>\<open>is_acceptable\<close> is the boolean true, the score is an integer,
  \<^verbatim>\<open>search_results\<close> is unset), and a dict read with the defaults of the router: a key
  of the dict shadows the default appended after it. \<open>evaluation_dict\<close> is the dict
  that a state holds under \<^verbatim>\<open>evaluation\<close>, the empty dict when it holds none.
\<close>

definition is_number :: "json \<Rightarrow> bool" where
  "is_number v = (case v of JBool b \<Rightarrow> True | JInt i \<Rightarrow> True | JFloat f \<Rightarrow> True | _ \<Rightarrow> False)"

definition evaluation_dict :: "state \<Rightarrow> pydict" where
  "evaluation_dict state = (case evaluation state of Some (PyDict d) \<Rightarrow> d | _ \<Rightarrow> [])"

definition spec_route :: "state \<Rightarrow> route" where
  "spec_route state =
     (let ev = evaluation_dict state
      in if get_or (iteration_count state) 0 \<ge> get_or (max_iterations state) 3 then ToFinalize
         else if dict_get ev ''is_acceptable'' (JBool False) = JBool True
                 \<and> (case dict_get ev ''score'' (JInt 0) of JInt n \<Rightarrow> n \<ge> 7 | _ \<Rightarrow> False)
              then ToFinalize
         else if dict_get ev ''needs_search'' (JBool False) = JBool True
                 \<and> search_results state = None
              then ToSearch
         else ToReflect)"

definition with_defaults :: "pydict \<Rightarrow> pydict" where
  "with_defaults d = d @ [(''is_acceptable'', JBool False), (''score'', JInt 0),
                          (''needs_search'', JBool False)]"

definition router_state :: "int \<Rightarrow> int \<Rightarrow> pydict \<Rightarrow> string option \<Rightarrow> state" where
  "router_state ic mi ev sr = empty_patch\<lparr>evaluation := Some (PyDict ev), search_results := sr,
     iteration_count := Some ic, max_iterations := Some mi\<rparr>"

section \<open>The specification's reading of the parser\<close>






section \<open>Example collaborators and states\<close>

text \<open>
  A model that gives the same answer at every call, a search tool with a fixed outcome,
  and \<open>json_loads\<close> as the decoder; a state after the first generation, and the initial
  state that \<^verbatim>\<open>run_qa_workflow\<close> builds. \<open>counted\<close> is the invariant of the engine
  that relates \<^verbatim>\<open>iteration_count\<close> to the trace at the entry of a node.
\<close>

definition example_env :: "string \<Rightarrow> error + hit list \<Rightarrow> env" where
  "example_env response found =
     \<lparr>llm_invoke = (\<lambda>k t p. Inr response), search_create = (\<lambda>k. None),
      search_invoke = (\<lambda>k q. found),
      json_decode = json_loads\<rparr>"

definition asked :: "string \<Rightarrow> string \<Rightarrow> 'e QAState" where
  "asked q d = empty_patch\<lparr>question := Some q, draft_answer := Some d\<rparr>"

definition counted :: "int \<Rightarrow> node \<Rightarrow> state \<Rightarrow> node list \<Rightarrow> bool" where
  "counted M nd s tr =
     (get_or (max_iterations s) 3 = M
      \<and> get_or (iteration_count s) 0 = int (count_list tr Generate)
      \<and> (if nd = Evaluate \<or> nd = Finalize
          then iteration_count s \<noteq> None \<and> get_or (iteration_count s) 0 \<le> M
          else get_or (iteration_count s) 0 < M))"

text \<open>
  The number of steps a run can still take from the entry of a node, given how many
  generations the bound still allows.
\<close>

definition steps_bound :: "node \<Rightarrow> nat \<Rightarrow> nat" where
  "steps_bound nd k =
     (case nd of
        Generate \<Rightarrow> 3 * k
      | Evaluate \<Rightarrow> 3 * k + 2
      | Search \<Rightarrow> 3 * k + 1
      | Reflect \<Rightarrow> 3 * k + 1
      | Finalize \<Rightarrow> 1)"

definition remaining :: "int \<Rightarrow> state \<Rightarrow> nat" where
  "remaining M s = nat (M - get_or (iteration_count s) 0)"

fun is_finished :: "outcome \<Rightarrow> bool" where
  "is_finished (Finished s tr) = True"
| "is_finished _ = False"

fun final_count :: "outcome \<Rightarrow> int option" where
  "final_count (Finished s tr) = iteration_count s"
| "final_count _ = None"

definition start_state :: "string \<Rightarrow> int \<Rightarrow> state" where
  "start_state q mi = empty_patch\<lparr>question := Some q, reflections := Some [],
     iteration_count := Some 0, max_iterations := Some mi\<rparr>"

section \<open>Sequences of store operations\<close>

text \<open>
  A sequence of \<^verbatim>\<open>log_state\<close> calls, each with its clock reading, node name and state.
  \<open>newest sid now x m\<close>: the store of \<open>m\<close> holds the session \<open>x\<close> of identifier
  \<open>sid\<close>, stamped \<open>now\<close>, first among the sessions of that identifier, every other
  session has an earlier timestamp, and \<open>sid\<close> is the current session. \<open>newest_first\<close>
  is the order of \<^verbatim>\<open>get_session_history\<close>; \<open>history_view\<close> shows the question and the
  final answer of the sessions it lists.
\<close>

definition log_all :: "manager \<Rightarrow> (string \<times> string \<times> patch) list \<Rightarrow> manager" where
  "log_all m logs = foldl (\<lambda>m' (now, node_name, state). log_state m' now node_name state) m logs"

definition newest :: "string \<Rightarrow> string \<Rightarrow> session \<Rightarrow> manager \<Rightarrow> bool" where
  "newest sid now x m =
     (current_session_id m = Some sid \<and> session_id x = sid \<and> timestamp x = Some now
      \<and> (\<exists>before after. session_file m = Some (before @ x # after)
            \<and> (\<forall>y\<in>set before. session_id y \<noteq> sid)
            \<and> (\<forall>y\<in>set (before @ after). \<exists>t. timestamp y = Some t \<and> t < now)))"

abbreviation newest_first :: "session list \<Rightarrow> bool" where
  "newest_first xs \<equiv> sorted_wrt (\<lambda>a b. ts_key b \<le> ts_key a) xs"

definition history_view :: "manager \<Rightarrow> int \<Rightarrow> error + (string option \<times> string option) list" where
  "history_view m limit =
     (case get_session_history m limit of
        Inl err \<Rightarrow> Inl err
      | Inr xs \<Rightarrow> Inr (map (\<lambda>x. (session_question x, session_final_answer x)) xs))"

text \<open>
  Example stores: one session already in the file, stamped after or before the session
  that is then created, logged once and completed.
\<close>

definition old_session :: session where
  "old_session = (skeleton ''20300101_000000'')\<lparr>timestamp := Some ''2030-01-01T00:00:00'',
     session_question := Some ''Old?''\<rparr>"

definition older_session :: session where
  "older_session = (skeleton ''20200101_000000'')\<lparr>timestamp := Some ''2020-01-01T00:00:00'',
     session_question := Some ''Older?''\<rparr>"

definition example_manager :: "session \<Rightarrow> manager" where
  "example_manager x =
     save_final_answer
       (log_all (create_session \<lparr>current_session_id = None, session_file = Some [x]\<rparr>
                   ''20250101_100000'' ''2025-01-01T10:00:00.000123'' ''New?'')
          [(''2025-01-01T10:00:01.000456'', ''generate_answer'', asked ''New?'' ''Draft'')])
       ''42'' (asked ''New?'' ''Draft'')"

section \<open>Properties of the router\<close>

lemma py_ge_number: "is_number v \<Longrightarrow> \<exists>b. py_ge v n = Inr b"
  by (cases "(v, n)" rule: py_ge.cases) (auto simp: is_number_def)

lemma py_ge_cases: "py_ge v n = Inr True \<or> py_ge v n = Inr False \<or> py_ge v n = Inl TypeError"
  by (cases "(v, n)" rule: py_ge.cases) auto

lemma py_ge_not_number: "\<not> is_number v \<Longrightarrow> py_ge v n = Inl TypeError"
  by (cases "(v, n)" rule: py_ge.cases) (auto simp: is_number_def)

text \<open>
  C1, as the code has it. The router is a function of the state alone, and it applies
  this order, the first match winning: (1) \<^verbatim>\<open>iteration_count >= max_iterations\<close>
  gives \<^verbatim>\<open>finalize\<close>, whatever the other fields hold; (2) else a truthy
  \<^verbatim>\<open>is_acceptable\<close> with a score of at least 7 gives \<^verbatim>\<open>finalize\<close>; (3) else a
  truthy \<^verbatim>\<open>needs_search\<close> with \<^verbatim>\<open>search_results\<close> unset or empty gives
  \<^verbatim>\<open>search\<close>; (4) otherwise \<^verbatim>\<open>reflect\<close>. It returns a route on every state that
  has reached the bound, and on every state whose evaluation is missing or a dict and
  whose \<^verbatim>\<open>is_acceptable\<close> is falsy or whose score is a number; below the bound, with
  a truthy \<^verbatim>\<open>is_acceptable\<close> and a score that is not a number, it raises a
  \<^verbatim>\<open>TypeError\<close>, and with an evaluation that holds \<^verbatim>\<open>None\<close> it raises an
  \<^verbatim>\<open>AttributeError\<close>.
\<close>

theorem router_decision_order:
  fixes state :: state
  shows
  "(let ev = evaluation_dict state;
        is_dict = (evaluation state \<noteq> Some PyNone);
        ic = get_or (iteration_count state) 0;
        mi = get_or (max_iterations state) 3;
        acceptable = truthy (dict_get ev ''is_acceptable'' (JBool False));
        score = dict_get ev ''score'' (JInt 0);
        wants_search = truthy (dict_get ev ''needs_search'' (JBool False));
        no_results = (search_results state = None \<or> search_results state = Some [])
    in (ic \<ge> mi \<longrightarrow> should_continue state = Inr ToFinalize)
     \<and> (ic < mi \<and> is_dict \<and> acceptable \<and> py_ge score 7 = Inr True
          \<longrightarrow> should_continue state = Inr ToFinalize)
     \<and> (ic < mi \<and> is_dict \<and> (\<not> acceptable \<or> py_ge score 7 = Inr False)
            \<and> wants_search \<and> no_results
          \<longrightarrow> should_continue state = Inr ToSearch)
     \<and> (ic < mi \<and> is_dict \<and> (\<not> acceptable \<or> py_ge score 7 = Inr False)
            \<and> \<not> (wants_search \<and> no_results)
          \<longrightarrow> should_continue state = Inr ToReflect)
     \<and> (ic < mi \<and> is_dict \<and> acceptable \<and> \<not> is_number score
          \<longrightarrow> should_continue state = Inl TypeError)
     \<and> (ic < mi \<and> \<not> is_dict \<longrightarrow> should_continue state = Inl AttributeError)
     \<and> (ic \<ge> mi \<or> (is_dict \<and> (\<not> acceptable \<or> is_number score))
          \<longrightarrow> (\<exists>r. should_continue state = Inr r)))"
proof -
  obtain b where "is_number (dict_get (evaluation_dict state) ''score'' (JInt 0)) \<Longrightarrow>
     py_ge (dict_get (evaluation_dict state) ''score'' (JInt 0)) 7 = Inr b"
    using py_ge_number by blast
  then show ?thesis
    unfolding Let_def
    by (auto simp: should_continue_def acceptable_and_score_def Let_def str_truthy_def
          evaluation_dict_def get_or_def py_ge_not_number
          split: option.splits sum.splits bool.splits optional_dict.splits)
qed

lemma router_state_simps:
  "evaluation (router_state ic mi ev sr) = Some (PyDict ev)"
  "search_results (router_state ic mi ev sr) = sr"
  "iteration_count (router_state ic mi ev sr) = Some ic"
  "max_iterations (router_state ic mi ev sr) = Some mi"
  by (simp_all add: router_state_def empty_patch_def)

text \<open>One state for each case of the decision order.\<close>

theorem router_decision_order_witness:
  "should_continue (router_state 3 3 [(''is_acceptable'', JBool True), (''score'', JStr ''8'')] None)
     = Inr ToFinalize
   \<and> should_continue (router_state 1 3 [(''is_acceptable'', JBool True), (''score'', JInt 8)] None)
     = Inr ToFinalize
   \<and> should_continue (router_state 1 3 [(''is_acceptable'', JBool False), (''score'', JInt 5),
        (''needs_search'', JBool True)] (Some [])) = Inr ToSearch
   \<and> should_continue (router_state 1 3 [(''is_acceptable'', JBool False), (''score'', JInt 5),
        (''needs_search'', JBool True)] (Some ''Search unavailable'')) = Inr ToReflect
   \<and> should_continue (router_state 1 3 [(''is_acceptable'', JBool True), (''score'', JStr ''8'')] None)
     = Inl TypeError
   \<and> (\<exists>r. should_continue (router_state 1 3 [(''is_acceptable'', JInt 1), (''score'', JFloat (Finite (15 / 2)))] None)
     = Inr r)
   \<and> should_continue (empty_patch\<lparr>evaluation := Some PyNone, iteration_count := Some 1\<rparr>)
     = Inl AttributeError"
  using router_decision_order[of "router_state 3 3 [(''is_acceptable'', JBool True), (''score'', JStr ''8'')] None"]
    router_decision_order[of "router_state 1 3 [(''is_acceptable'', JBool True), (''score'', JInt 8)] None"]
    router_decision_order[of "router_state 1 3 [(''is_acceptable'', JBool False), (''score'', JInt 5),
        (''needs_search'', JBool True)] (Some [])"]
    router_decision_order[of "router_state 1 3 [(''is_acceptable'', JBool False), (''score'', JInt 5),
        (''needs_search'', JBool True)] (Some ''Search unavailable'')"]
    router_decision_order[of "router_state 1 3 [(''is_acceptable'', JBool True), (''score'', JStr ''8'')] None"]
    router_decision_order[of "router_state 1 3 [(''is_acceptable'', JInt 1), (''score'', JFloat (Finite (15 / 2)))] None"]
    router_decision_order[of "empty_patch\<lparr>evaluation := Some PyNone, iteration_count := Some 1\<rparr>"]
  by (simp add: Let_def router_state_simps evaluation_dict_def get_or_def dict_get_def
        is_number_def empty_patch_def)

text \<open>
  C1 as the specification words it fails: with \<^verbatim>\<open>search_results\<close> set to the empty
  string, which the search node produces when the tool finds nothing, the router still
  returns \<^verbatim>\<open>search\<close>, where rule (3) of the specification gives \<^verbatim>\<open>reflect\<close>.
\<close>

theorem router_unset_counterexample:
  "should_continue (router_state 1 3 [(''score'', JInt 5), (''is_acceptable'', JBool False),
       (''needs_search'', JBool True)] (Some [])) = Inr ToSearch
   \<and> spec_route (router_state 1 3 [(''score'', JInt 5), (''is_acceptable'', JBool False),
       (''needs_search'', JBool True)] (Some [])) = ToReflect"
  by (simp add: should_continue_def spec_route_def acceptable_and_score_def Let_def
        router_state_simps evaluation_dict_def get_or_def dict_get_def str_truthy_def)

text \<open>
  C9, as the code has it. On a state whose key \<^verbatim>\<open>evaluation\<close> is missing or holds a
  dict, the router decides as on the state in which the fields \<^verbatim>\<open>is_acceptable\<close>,
  \<^verbatim>\<open>score\<close> and \<^verbatim>\<open>needs_search\<close> that the dict lacks hold false, 0 and false, a
  missing \<^verbatim>\<open>iteration_count\<close> holds 0 and a missing \<^verbatim>\<open>max_iterations\<close> holds 3.
  So, below the bound: when the key is missing, or the dict has neither
  \<^verbatim>\<open>is_acceptable\<close> nor \<^verbatim>\<open>needs_search\<close>, the router returns \<^verbatim>\<open>reflect\<close>;
  when the dict lacks \<^verbatim>\<open>is_acceptable\<close> but has \<^verbatim>\<open>needs_search\<close>, the router
  returns \<^verbatim>\<open>search\<close> if \<^verbatim>\<open>needs_search\<close> is truthy and there are no search
  results, and \<^verbatim>\<open>reflect\<close> otherwise. When the key is missing, or the dict lacks
  \<^verbatim>\<open>is_acceptable\<close> or \<^verbatim>\<open>score\<close>, the router returns a route and does not fail.
  When the key holds \<^verbatim>\<open>None\<close>, the router raises an \<^verbatim>\<open>AttributeError\<close> below the
  bound.
\<close>

theorem router_defaults:
  fixes state :: state
  shows
  "(evaluation state \<noteq> Some PyNone \<longrightarrow>
      should_continue state =
        should_continue
          (state\<lparr>evaluation := Some (PyDict (with_defaults (evaluation_dict state))),
             iteration_count := Some (get_or (iteration_count state) 0),
             max_iterations := Some (get_or (max_iterations state) 3)\<rparr>))
   \<and> ((evaluation state = None
        \<or> (\<exists>d. evaluation state = Some (PyDict d) \<and> \<not> dict_has d ''is_acceptable''
                \<and> \<not> dict_has d ''needs_search''))
       \<and> get_or (iteration_count state) 0 < get_or (max_iterations state) 3
       \<longrightarrow> should_continue state = Inr ToReflect)
   \<and> (\<forall>d. evaluation state = Some (PyDict d) \<and> \<not> dict_has d ''is_acceptable''
          \<and> get_or (iteration_count state) 0 < get_or (max_iterations state) 3
       \<longrightarrow> should_continue state =
             (if truthy (dict_get d ''needs_search'' (JBool False))
                 \<and> \<not> str_truthy (search_results state)
              then Inr ToSearch else Inr ToReflect))
   \<and> (evaluation state = None
        \<or> (\<exists>d. evaluation state = Some (PyDict d)
                \<and> (\<not> dict_has d ''is_acceptable'' \<or> \<not> dict_has d ''score''))
       \<longrightarrow> (\<exists>r. should_continue state = Inr r))
   \<and> (evaluation state = Some PyNone
        \<and> get_or (iteration_count state) 0 < get_or (max_iterations state) 3
       \<longrightarrow> should_continue state = Inl AttributeError)"
  by (auto simp: should_continue_def acceptable_and_score_def Let_def get_or_def dict_get_def
        dict_has_def with_defaults_def evaluation_dict_def map_add_def
        split: option.splits optional_dict.splits)

text \<open>
  A state without evaluation and bound, one whose evaluation has only a score, one whose
  evaluation has only a truthy \<^verbatim>\<open>needs_search\<close>, and one whose evaluation holds
  \<^verbatim>\<open>None\<close>.
\<close>

theorem router_defaults_witness:
  "should_continue (empty_patch\<lparr>iteration_count := Some 2\<rparr>) = Inr ToReflect
   \<and> should_continue (empty_patch\<lparr>evaluation := Some (PyDict [(''score'', JStr ''nine'')])\<rparr>)
     = Inr ToReflect
   \<and> should_continue (empty_patch\<lparr>evaluation := Some (PyDict [(''needs_search'', JInt 1)])\<rparr>)
     = Inr ToSearch
   \<and> should_continue (empty_patch\<lparr>evaluation := Some PyNone\<rparr>) = Inl AttributeError"
  using router_defaults[THEN conjunct2, THEN conjunct1,
      of "empty_patch\<lparr>iteration_count := Some 2\<rparr>"]
    router_defaults[THEN conjunct2, THEN conjunct1,
      of "empty_patch\<lparr>evaluation := Some (PyDict [(''score'', JStr ''nine'')])\<rparr>"]
    router_defaults[THEN conjunct2, THEN conjunct2, THEN conjunct1,
      of "empty_patch\<lparr>evaluation := Some (PyDict [(''needs_search'', JInt 1)])\<rparr>"]
    router_defaults[THEN conjunct2, THEN conjunct2, THEN conjunct2, THEN conjunct2,
      of "empty_patch\<lparr>evaluation := Some PyNone\<rparr>"]
  by (simp add: empty_patch_def get_or_def dict_has_def dict_get_def str_truthy_def)

text \<open>
  C9 as stated fails. Below the bound, a state whose evaluation lacks \<^verbatim>\<open>is_acceptable\<close>
  and \<^verbatim>\<open>score\<close> is routed to \<^verbatim>\<open>search\<close>, one whose evaluation lacks only
  \<^verbatim>\<open>needs_search\<close> is routed to \<^verbatim>\<open>finalize\<close> or makes the router raise, and a
  state whose evaluation holds \<^verbatim>\<open>None\<close> makes the router raise: none of them gives
  \<^verbatim>\<open>reflect\<close>.
\<close>

theorem router_partial_record_counterexample:
  "should_continue (router_state 1 3 [(''needs_search'', JBool True)] None) = Inr ToSearch
   \<and> should_continue (router_state 1 3 [(''is_acceptable'', JBool True), (''score'', JInt 9)] None)
     = Inr ToFinalize
   \<and> should_continue (router_state 1 3 [(''is_acceptable'', JBool True), (''score'', JStr ''9'')] None)
     = Inl TypeError
   \<and> should_continue (empty_patch\<lparr>evaluation := Some PyNone, iteration_count := Some 1,
        max_iterations := Some 3\<rparr>) = Inl AttributeError"
  by (simp add: should_continue_def acceptable_and_score_def Let_def router_state_simps
        get_or_def dict_get_def str_truthy_def empty_patch_def)

section \<open>Properties of the evaluate and search steps\<close>

lemma example_env_simps:
  "llm_invoke (example_env response found) k t p = Inr response"
  "search_create (example_env response found) k = None"
  "search_invoke (example_env response found) k q = found"
  "json_decode (example_env response found) = json_loads"
  by (simp_all add: example_env_def)

lemma asked_simps:
  "question (asked q d) = Some q" "draft_answer (asked q d) = Some d"
  "iteration_count (asked q d) = None"
  by (simp_all add: asked_def empty_patch_def)

lemma accept_record:
  assumes "dict_has obj ''score''" and "dict_has obj ''is_acceptable''"
  shows "accept_or_fallback state d (JObj obj) = Inr (empty_patch\<lparr>evaluation := Some obj\<rparr>)"
proof -
  have "obj \<noteq> []" using assms(1) by (auto simp: dict_has_def)
  then show ?thesis using assms by (simp add: accept_or_fallback_def has_required_keys_def)
qed


text \<open>
  C10. The evaluate step checks nothing but the presence of the two keys: when the
  extracted value is a dict that has \<^verbatim>\<open>score\<close> and \<^verbatim>\<open>is_acceptable\<close>, the patch
  holds that dict as it is, and so does the state after the merge, whatever the values
  of the two keys are and whatever other keys the dict has or lacks.
\<close>

theorem evaluate_stores_record_unchanged:
  assumes "question state = Some q" and "draft_answer state = Some d"
    and "llm_invoke e k 0 (evaluation_prompt q d) = Inr response"
    and "extract_json_from_text (json_decode e) response = JObj obj"
    and "dict_has obj ''score''" and "dict_has obj ''is_acceptable''"
  shows "evaluate_answer_node e k state = Inr (empty_patch\<lparr>evaluation := Some obj\<rparr>)
       \<and> (\<forall>patch. evaluate_answer_node e k state = Inr patch
            \<longrightarrow> evaluation (merge_patch state patch) = Some (PyDict obj))"
proof -
  have "evaluate_answer_node e k state = Inr (empty_patch\<lparr>evaluation := Some obj\<rparr>)"
    using assms(1-4) accept_record[OF assms(5,6)] by (simp add: evaluate_answer_node_def)
  then show ?thesis by (auto simp: merge_patch_def override_def)
qed

lemma extract_example_42:
  \<open>extract_json_from_text json_loads ''Sure! {"score": 42, "is_acceptable": "maybe"}''
     = JObj [(''score'', JInt 42), (''is_acceptable'', JStr ''maybe'')]\<close>
  by code_simp

text \<open>A score of 42, an \<^verbatim>\<open>is_acceptable\<close> that is a string, and no lists.\<close>

theorem evaluate_stores_record_unchanged_witness:
  \<open>evaluate_answer_node (example_env ''Sure! {"score": 42, "is_acceptable": "maybe"}'' (Inr [])) 1
      (asked ''Why?'' ''Because.'')
    = Inr (empty_patch\<lparr>evaluation := Some [(''score'', JInt 42), (''is_acceptable'', JStr ''maybe'')]\<rparr>)\<close>
  using evaluate_stores_record_unchanged[of "asked ''Why?'' ''Because.''" "''Why?''" "''Because.''"
      \<open>example_env ''Sure! {"score": 42, "is_acceptable": "maybe"}'' (Inr [])\<close> 1
      \<open>''Sure! {"score": 42, "is_acceptable": "maybe"}''\<close>
      "[(''score'', JInt 42), (''is_acceptable'', JStr ''maybe'')]"]
    extract_example_42
  by (simp add: example_env_simps asked_simps dict_has_def)

lemma extract_bare_number: "extract_json_from_text json_loads ''8'' = JInt 8"
  by code_simp

text \<open>
  C2 at a response that is valid JSON but not an object: no attempt yields a record
  with the two keys, and the node raises instead of producing the fallback record,
  since \<^verbatim>\<open>"score" in 8\<close> is a \<^verbatim>\<open>TypeError\<close>.
\<close>

theorem evaluate_bare_number_raises:
  "evaluate_answer_node (example_env ''8'' (Inr [])) 1 (asked ''Why?'' ''Because.'') = Inl TypeError"
  by (simp add: evaluate_answer_node_def example_env_simps asked_simps extract_bare_number
        accept_or_fallback_def has_required_keys_def)

text \<open>
  Where the extracted value is falsy (\<^verbatim>\<open>None\<close> included) or a dict, list or string
  without the two keys, the node produces the fallback record of the specification.
\<close>

lemma fallback_when_not_accepted:
  assumes "question state = Some q" and "draft_answer state = Some d"
    and "llm_invoke e k 0 (evaluation_prompt q d) = Inr response"
    and "\<not> truthy (extract_json_from_text (json_decode e) response)
         \<or> has_required_keys (extract_json_from_text (json_decode e) response) = Inr False"
  shows "evaluate_answer_node e k state =
     Inr (empty_patch\<lparr>evaluation := Some
       [(''score'', JInt (min 10 (max 5 (int (length d) div 200)))),
        (''is_acceptable'', JBool (get_or (iteration_count state) 1 \<ge> 2
            \<or> min 10 (max 5 (int (length d) div 200)) \<ge> 7)),
        (''strengths'', JArr [JStr ''Answer provided'']),
        (''weaknesses'', JArr (if min 10 (max 5 (int (length d) div 200)) \<ge> 7 then []
                               else [JStr ''Could be more detailed''])),
        (''suggestions'', JArr (if min 10 (max 5 (int (length d) div 200)) \<ge> 7 then []
                                else [JStr ''Add more examples''])),
        (''needs_search'', JBool False)]\<rparr>)"
  using assms
  by (auto simp: evaluate_answer_node_def accept_or_fallback_def fallback_evaluation_def
        fallback_score_def Let_def)




section \<open>Properties of runs\<close>

lemma merge_fields:
  "iteration_count (merge_patch s p) = override (iteration_count s) (iteration_count p)"
  "max_iterations (merge_patch s p) = override (max_iterations s) (max_iterations p)"
  "search_results (merge_patch s p) = override (search_results s) (search_results p)"
  by (simp_all add: merge_patch_def)

lemma generate_patch:
  assumes "generate_answer_node e k s = Inr p"
  shows "iteration_count p = Some (get_or (iteration_count s) 0 + 1)"
    and "max_iterations p = None" and "search_results p = None"
  using assms
  by (auto simp: generate_answer_node_def empty_patch_def split: option.splits sum.splits)

lemma evaluate_patch:
  assumes "evaluate_answer_node e k s = Inr p"
  shows "iteration_count p = None" and "max_iterations p = None" and "search_results p = None"
  using assms
  by (auto simp: evaluate_answer_node_def accept_or_fallback_def empty_patch_def
        split: option.splits sum.splits if_splits bool.splits json.splits)

lemma search_patch:
  assumes "search_tool_node e k s = Inr p"
  shows "iteration_count p = None" and "max_iterations p = None"
  using assms
  by (auto simp: search_tool_node_def empty_patch_def split: option.splits sum.splits)

lemma reflect_patch:
  assumes "reflection_node s = Inr p"
  shows "iteration_count p = None" and "max_iterations p = None" and "search_results p = None"
  using assms
  by (auto simp: reflection_node_def empty_patch_def Let_def
        split: sum.splits if_splits optional_dict.splits)

lemma finalize_patch:
  assumes "finalize_answer_node e k s = Inr p"
  shows "iteration_count p = None" and "max_iterations p = None" and "search_results p = None"
  using assms
  by (auto simp: finalize_answer_node_def empty_patch_def split: option.splits sum.splits)

lemma node_keeps_count:
  assumes "run_node e k nd s = Inr p" and "nd \<noteq> Generate"
  shows "iteration_count (merge_patch s p) = iteration_count s"
  using assms evaluate_patch(1) search_patch(1) reflect_patch(1) finalize_patch(1)
  by (cases nd) (auto simp: run_node_def merge_fields override_def)

lemma node_keeps_bound:
  assumes "run_node e k nd s = Inr p"
  shows "max_iterations (merge_patch s p) = max_iterations s"
  using assms generate_patch(2) evaluate_patch(2) search_patch(2) reflect_patch(2) finalize_patch(2)
  by (cases nd) (auto simp: run_node_def merge_fields override_def)

lemma generate_adds_one:
  assumes "run_node e k Generate s = Inr p"
  shows "iteration_count (merge_patch s p) = Some (get_or (iteration_count s) 0 + 1)"
  using assms generate_patch(1)
  by (auto simp: run_node_def merge_fields override_def)

lemma router_continues_below_bound:
  assumes "should_continue s = Inr r" and "r \<noteq> ToFinalize"
  shows "get_or (iteration_count s) 0 < get_or (max_iterations s) 3"
  using assms by (auto simp: should_continue_def Let_def split: if_splits)

lemma run_from_counted:
  assumes "run_from e fuel nd s tr = Finished s' tr'" and "counted M nd s tr"
  shows "iteration_count s' = Some (int (count_list tr' Generate))
       \<and> int (count_list tr' Generate) \<le> M \<and> max_iterations s' = max_iterations s"
  using assms
proof (induction fuel arbitrary: nd s tr)
  case 0
  then show ?case by simp
next
  case (Suc fuel)
  from Suc.prems(1) obtain p where p: "run_node e (length tr) nd s = Inr p"
    by (auto split: sum.splits)
  let ?s = "merge_patch s p" and ?tr = "tr @ [nd]"
  have bound: "max_iterations ?s = max_iterations s" using p by (rule node_keeps_bound)
  show ?case
  proof (cases nd)
    case Generate
    have ic: "iteration_count ?s = Some (get_or (iteration_count s) 0 + 1)"
      using p Generate generate_adds_one by simp
    have "counted M Evaluate ?s ?tr"
      using Suc.prems(2) Generate ic bound by (auto simp: counted_def get_or_def)
    moreover have "run_from e fuel Evaluate ?s ?tr = Finished s' tr'"
      using Suc.prems(1) p Generate by (simp add: Let_def)
    ultimately show ?thesis using Suc.IH bound by fastforce
  next
    case Evaluate
    have ic: "iteration_count ?s = iteration_count s"
      using p Evaluate node_keeps_count by simp
    from Suc.prems(1) p Evaluate obtain r where r: "should_continue ?s = Inr r"
      by (auto simp: Let_def split: sum.splits)
    have cnt: "count_list ?tr Generate = count_list tr Generate" using Evaluate by simp
    show ?thesis
    proof (cases r)
      case ToSearch
      then have "get_or (iteration_count ?s) 0 < get_or (max_iterations ?s) 3"
        using r router_continues_below_bound by blast
      then have "counted M Search ?s ?tr"
        using Suc.prems(2) Evaluate ic bound cnt by (auto simp: counted_def)
      moreover have "run_from e fuel Search ?s ?tr = Finished s' tr'"
        using Suc.prems(1) p Evaluate r ToSearch by (simp add: Let_def)
      ultimately show ?thesis using Suc.IH bound by fastforce
    next
      case ToReflect
      then have "get_or (iteration_count ?s) 0 < get_or (max_iterations ?s) 3"
        using r router_continues_below_bound by blast
      then have "counted M Reflect ?s ?tr"
        using Suc.prems(2) Evaluate ic bound cnt by (auto simp: counted_def)
      moreover have "run_from e fuel Reflect ?s ?tr = Finished s' tr'"
        using Suc.prems(1) p Evaluate r ToReflect by (simp add: Let_def)
      ultimately show ?thesis using Suc.IH bound by fastforce
    next
      case ToFinalize
      have "counted M Finalize ?s ?tr"
        using Suc.prems(2) Evaluate ic bound cnt by (auto simp: counted_def)
      moreover have "run_from e fuel Finalize ?s ?tr = Finished s' tr'"
        using Suc.prems(1) p Evaluate r ToFinalize by (simp add: Let_def)
      ultimately show ?thesis using Suc.IH bound by fastforce
    qed
  next
    case Search
    have ic: "iteration_count ?s = iteration_count s"
      using p Search node_keeps_count by simp
    have "counted M Generate ?s ?tr"
      using Suc.prems(2) Search ic bound by (auto simp: counted_def)
    moreover have "run_from e fuel Generate ?s ?tr = Finished s' tr'"
      using Suc.prems(1) p Search by (simp add: Let_def)
    ultimately show ?thesis using Suc.IH bound by fastforce
  next
    case Reflect
    have ic: "iteration_count ?s = iteration_count s"
      using p Reflect node_keeps_count by simp
    have "counted M Generate ?s ?tr"
      using Suc.prems(2) Reflect ic bound by (auto simp: counted_def)
    moreover have "run_from e fuel Generate ?s ?tr = Finished s' tr'"
      using Suc.prems(1) p Reflect by (simp add: Let_def)
    ultimately show ?thesis using Suc.IH bound by fastforce
  next
    case Finalize
    have ic: "iteration_count ?s = iteration_count s"
      using p Finalize node_keeps_count by simp
    have "s' = ?s" "tr' = ?tr" using Suc.prems(1) p Finalize by (simp_all add: Let_def)
    then show ?thesis
      using Suc.prems(2) Finalize ic bound by (auto simp: counted_def get_or_def split: option.splits)
  qed
qed

text \<open>
  The bound on the iterations bounds the run: from an initial state with
  \<^verbatim>\<open>iteration_count\<close> unset or 0 and a bound of at least 1, a run with a budget of
  three steps per allowed iteration reaches the end or is aborted by an exception; it
  does not run out of steps.
\<close>

lemma run_from_enough_fuel:
  assumes "counted M nd s tr" and "steps_bound nd (remaining M s) \<le> fuel"
  shows "run_from e fuel nd s tr \<noteq> OutOfSteps tr'"
  using assms
proof (induction fuel arbitrary: nd s tr)
  case 0
  then show ?case
    by (cases nd) (auto simp: steps_bound_def remaining_def counted_def)
next
  case (Suc fuel)
  show ?case
  proof (cases "run_node e (length tr) nd s")
    case (Inl err)
    then show ?thesis by simp
  next
    case (Inr p)
    let ?s = "merge_patch s p" and ?tr = "tr @ [nd]"
    have bound: "max_iterations ?s = max_iterations s" using Inr by (rule node_keeps_bound)
    show ?thesis
    proof (cases nd)
      case Generate
      have ic: "iteration_count ?s = Some (get_or (iteration_count s) 0 + 1)"
        using Inr Generate generate_adds_one by simp
      have c: "counted M Evaluate ?s ?tr"
        using Suc.prems(1) Generate ic bound by (auto simp: counted_def get_or_def)
      have "steps_bound Evaluate (remaining M ?s) \<le> fuel"
        using Suc.prems Generate ic
        by (auto simp: steps_bound_def remaining_def counted_def get_or_def)
      then show ?thesis using Suc.IH[OF c] Inr Generate by (simp add: Let_def)
    next
      case Evaluate
      have ic: "iteration_count ?s = iteration_count s"
        using Inr Evaluate node_keeps_count by simp
      have cnt: "count_list ?tr Generate = count_list tr Generate" using Evaluate by simp
      have rem: "remaining M ?s = remaining M s" using ic by (simp add: remaining_def)
      show ?thesis
      proof (cases "should_continue ?s")
        case (Inl err)
        then show ?thesis using Inr Evaluate by (simp add: Let_def)
      next
        case r: (Inr r)
        show ?thesis
        proof (cases r)
          case ToSearch
          then have lt: "get_or (iteration_count ?s) 0 < get_or (max_iterations ?s) 3"
            using r router_continues_below_bound by blast
          then have c: "counted M Search ?s ?tr"
            using Suc.prems(1) Evaluate ic bound cnt by (auto simp: counted_def)
          have "steps_bound Search (remaining M ?s) \<le> fuel"
            using Suc.prems(2) Evaluate rem by (simp add: steps_bound_def)
          then show ?thesis using Suc.IH[OF c] Inr Evaluate r ToSearch by (simp add: Let_def)
        next
          case ToReflect
          then have lt: "get_or (iteration_count ?s) 0 < get_or (max_iterations ?s) 3"
            using r router_continues_below_bound by blast
          then have c: "counted M Reflect ?s ?tr"
            using Suc.prems(1) Evaluate ic bound cnt by (auto simp: counted_def)
          have "steps_bound Reflect (remaining M ?s) \<le> fuel"
            using Suc.prems(2) Evaluate rem by (simp add: steps_bound_def)
          then show ?thesis using Suc.IH[OF c] Inr Evaluate r ToReflect by (simp add: Let_def)
        next
          case ToFinalize
          have c: "counted M Finalize ?s ?tr"
            using Suc.prems(1) Evaluate ic bound cnt by (auto simp: counted_def)
          have "steps_bound Finalize (remaining M ?s) \<le> fuel"
            using Suc.prems(2) Evaluate by (simp add: steps_bound_def)
          then show ?thesis using Suc.IH[OF c] Inr Evaluate r ToFinalize by (simp add: Let_def)
        qed
      qed
    next
      case Search
      have ic: "iteration_count ?s = iteration_count s"
        using Inr Search node_keeps_count by simp
      have c: "counted M Generate ?s ?tr"
        using Suc.prems(1) Search ic bound by (auto simp: counted_def)
      have "steps_bound Generate (remaining M ?s) \<le> fuel"
        using Suc.prems(2) Search ic by (simp add: steps_bound_def remaining_def)
      then show ?thesis using Suc.IH[OF c] Inr Search by (simp add: Let_def)
    next
      case Reflect
      have ic: "iteration_count ?s = iteration_count s"
        using Inr Reflect node_keeps_count by simp
      have c: "counted M Generate ?s ?tr"
        using Suc.prems(1) Reflect ic bound by (auto simp: counted_def)
      have "steps_bound Generate (remaining M ?s) \<le> fuel"
        using Suc.prems(2) Reflect ic by (simp add: steps_bound_def remaining_def)
      then show ?thesis using Suc.IH[OF c] Inr Reflect by (simp add: Let_def)
    next
      case Finalize
      then show ?thesis using Inr by (simp add: Let_def)
    qed
  qed
qed

lemma run_ends_within_budget:
  assumes "iteration_count s0 = None \<or> iteration_count s0 = Some 0"
    and "1 \<le> get_or (max_iterations s0) 3"
    and "3 * nat (get_or (max_iterations s0) 3) \<le> fuel"
  shows "run e fuel s0 \<noteq> OutOfSteps tr'"
proof -
  have "counted (get_or (max_iterations s0) 3) Generate s0 []"
    using assms(1,2) by (auto simp: counted_def get_or_def)
  moreover have "steps_bound Generate (remaining (get_or (max_iterations s0) 3) s0) \<le> fuel"
    using assms(1,3) by (auto simp: steps_bound_def remaining_def get_or_def)
  ultimately show ?thesis unfolding run_def by (rule run_from_enough_fuel)
qed

text \<open>
  C3, as the code has it. Every generate step adds exactly 1 to
  \<^verbatim>\<open>iteration_count\<close>; the search, evaluate, reflect and finalize steps leave it as
  it is. A run that starts with \<^verbatim>\<open>iteration_count\<close> unset or 0 and a bound of at
  least 1 (3 when \<^verbatim>\<open>max_iterations\<close> is unset), and that reaches the end, ends with
  \<^verbatim>\<open>iteration_count\<close> equal to the number of generate steps, which is at most the
  bound.
\<close>

theorem iteration_count_counts_generate:
  assumes "iteration_count s0 = None \<or> iteration_count s0 = Some 0"
    and "1 \<le> get_or (max_iterations s0) 3"
    and "run e fuel s0 = Finished s tr"
  shows "iteration_count s = Some (int (count_list tr Generate))
       \<and> int (count_list tr Generate) \<le> get_or (max_iterations s0) 3
       \<and> (\<forall>k st p. run_node e k Generate st = Inr p
             \<longrightarrow> iteration_count (merge_patch st p) = Some (get_or (iteration_count st) 0 + 1))
       \<and> (\<forall>k nd st p. nd \<noteq> Generate \<and> run_node e k nd st = Inr p
             \<longrightarrow> iteration_count (merge_patch st p) = iteration_count st)"
proof -
  have "counted (get_or (max_iterations s0) 3) Generate s0 []"
    using assms(1,2) by (auto simp: counted_def get_or_def)
  then have "iteration_count s = Some (int (count_list tr Generate))
       \<and> int (count_list tr Generate) \<le> get_or (max_iterations s0) 3"
    using assms(3) run_from_counted unfolding run_def by blast
  then show ?thesis using generate_adds_one node_keeps_count by blast
qed

lemma start_state_simps:
  "iteration_count (start_state q mi) = Some 0" "max_iterations (start_state q mi) = Some mi"
  "search_results (start_state q mi) = None"
  by (simp_all add: start_state_def empty_patch_def)

lemma example_run_trace:
  \<open>trace_of (run (example_env ''{"score": 3, "is_acceptable": false}'' (Inr [])) 25 (start_state ''Why?'' 2))
     = [Generate, Evaluate, Reflect, Generate, Evaluate, Finalize]\<close>
  by code_simp

lemma example_run_finished:
  \<open>is_finished (run (example_env ''{"score": 3, "is_acceptable": false}'' (Inr [])) 25 (start_state ''Why?'' 2))\<close>
  by code_simp

text \<open>A run with a bound of 2 whose evaluation is never acceptable.\<close>

theorem iteration_count_counts_generate_witness:
  \<open>\<exists>s. run (example_env ''{"score": 3, "is_acceptable": false}'' (Inr [])) 25 (start_state ''Why?'' 2)
         = Finished s [Generate, Evaluate, Reflect, Generate, Evaluate, Finalize]
       \<and> iteration_count s = Some 2\<close>
proof -
  let ?e = \<open>example_env ''{"score": 3, "is_acceptable": false}'' (Inr [])\<close>
  obtain s tr where fin: "run ?e 25 (start_state ''Why?'' 2) = Finished s tr"
    using example_run_finished by (cases "run ?e 25 (start_state ''Why?'' 2)") auto
  then have tr: "tr = [Generate, Evaluate, Reflect, Generate, Evaluate, Finalize]"
    using example_run_trace by simp
  have "iteration_count s = Some (int (count_list tr Generate))"
    using iteration_count_counts_generate[OF _ _ fin] by (simp add: start_state_simps get_or_def)
  then show ?thesis using fin tr by simp
qed

text \<open>
  C3 as stated fails for a bound below 1, which the command line accepts: the run
  generates once before the router reads the bound, and ends with \<^verbatim>\<open>iteration_count\<close>
  1 under a bound of 0. It fails as well for a run entered with a count that is not 0:
  the final count is then not the number of generate steps.
\<close>

theorem bound_zero_counterexample:
  \<open>trace_of (run (example_env ''{"score": 3, "is_acceptable": false}'' (Inr [])) 25
       (start_state ''Why?'' 0)) = [Generate, Evaluate, Finalize]
   \<and> final_count (run (example_env ''{"score": 3, "is_acceptable": false}'' (Inr [])) 25
       (start_state ''Why?'' 0)) = Some 1
   \<and> max_iterations (start_state ''Why?'' 0) = Some 0
   \<and> trace_of (run (example_env ''{"score": 3, "is_acceptable": false}'' (Inr [])) 25
       ((start_state ''Why?'' 3)\<lparr>iteration_count := Some 5\<rparr>)) = [Generate, Evaluate, Finalize]
   \<and> final_count (run (example_env ''{"score": 3, "is_acceptable": false}'' (Inr [])) 25
       ((start_state ''Why?'' 3)\<lparr>iteration_count := Some 5\<rparr>)) = Some 6\<close>
  by code_simp

lemma str_nat_nonempty: "str_nat n \<noteq> []"
  by (subst str_nat.simps) simp

lemma join_nonempty: "x \<noteq> [] \<Longrightarrow> join sep (x # xs) \<noteq> []"
  by (cases xs) simp_all

lemma format_hits_nonempty: "hits \<noteq> [] \<Longrightarrow> join sep (format_hits i hits) \<noteq> []"
  by (cases hits) (simp_all add: join_nonempty str_nat_nonempty)

lemma search_patch_truthy:
  assumes "search_tool_node e k s = Inr p" and "\<forall>k q. search_invoke e k q \<noteq> Inr []"
  shows "str_truthy (search_results p)"
proof -
  have c: "search_create e k = None"
    using assms(1) by (auto simp: search_tool_node_def split: option.splits)
  obtain q where q: "question s = Some q"
    using assms(1) c by (auto simp: search_tool_node_def split: option.splits)
  show ?thesis
  proof (cases "search_invoke e k q")
    case (Inl err)
    then show ?thesis using assms(1) c q
      by (auto simp: search_tool_node_def str_truthy_def empty_patch_def)
  next
    case (Inr hits)
    then have "hits \<noteq> []" using assms(2) by auto
    then show ?thesis using assms(1) c q Inr
      by (auto simp: search_tool_node_def str_truthy_def empty_patch_def format_hits_nonempty)
  qed
qed

lemma truthy_results_block_search:
  "str_truthy (search_results s) \<Longrightarrow> should_continue s \<noteq> Inr ToSearch"
  by (auto simp: should_continue_def Let_def
        split: sum.splits bool.splits if_splits optional_dict.splits)

lemma node_keeps_results:
  assumes "run_node e k nd s = Inr p" and "nd \<noteq> Search"
  shows "search_results (merge_patch s p) = search_results s"
  using assms generate_patch(3) evaluate_patch(3) reflect_patch(3) finalize_patch(3)
  by (cases nd) (auto simp: run_node_def merge_fields override_def)

lemma searches_kept:
  assumes "str_truthy (search_results s)" and "nd \<noteq> Search"
  shows "count_list (trace_of (run_from e fuel nd s tr)) Search = count_list tr Search"
  using assms
proof (induction fuel arbitrary: nd s tr)
  case 0
  then show ?case by simp
next
  case (Suc fuel)
  show ?case
  proof (cases "run_node e (length tr) nd s")
    case (Inl err)
    then show ?thesis using Suc.prems(2) by simp
  next
    case (Inr p)
    let ?s = "merge_patch s p" and ?tr = "tr @ [nd]"
    have res: "str_truthy (search_results ?s)"
      using Inr Suc.prems node_keeps_results by simp
    have cnt: "count_list ?tr Search = count_list tr Search" using Suc.prems(2) by simp
    have step: "\<And>nd'. nd' \<noteq> Search \<Longrightarrow>
        count_list (trace_of (run_from e fuel nd' ?s ?tr)) Search = count_list tr Search"
      using Suc.IH res cnt by simp
    show ?thesis
    proof (cases nd)
      case Evaluate
      show ?thesis
      proof (cases "should_continue ?s")
        case (Inl err)
        then show ?thesis using Inr Evaluate cnt by (simp add: Let_def)
      next
        case r: (Inr r)
        then have "r \<noteq> ToSearch" using res truthy_results_block_search by auto
        then show ?thesis using Inr Evaluate r step cnt
          by (cases r) (simp_all add: Let_def)
      qed
    qed (use Inr Suc.prems(2) step cnt in \<open>simp_all add: Let_def\<close>)
  qed
qed

lemma searches_at_most_one_more:
  assumes "\<forall>k q. search_invoke e k q \<noteq> Inr []"
  shows "count_list (trace_of (run_from e fuel nd s tr)) Search \<le> Suc (count_list tr Search)"
proof (induction fuel arbitrary: nd s tr)
  case 0
  then show ?case by simp
next
  case (Suc fuel)
  show ?case
  proof (cases "run_node e (length tr) nd s")
    case (Inl err)
    then show ?thesis by simp
  next
    case (Inr p)
    let ?s = "merge_patch s p" and ?tr = "tr @ [nd]"
    show ?thesis
    proof (cases nd)
      case Search
      then have "str_truthy (search_results p)"
        using Inr assms search_patch_truthy by (simp add: run_node_def)
      then have "str_truthy (search_results ?s)"
        by (auto simp: merge_fields override_def str_truthy_def split: option.splits)
      then have "count_list (trace_of (run_from e fuel Generate ?s ?tr)) Search
                   = count_list ?tr Search"
        by (rule searches_kept) simp
      then show ?thesis using Inr Search by (simp add: Let_def)
    next
      case Evaluate
      have cnt: "count_list ?tr Search = count_list tr Search" using Evaluate by simp
      show ?thesis
      proof (cases "should_continue ?s")
        case (Inl err)
        then show ?thesis using Inr Evaluate by (simp add: Let_def)
      next
        case r: (Inr r)
        then show ?thesis using Inr Evaluate Suc.IH[of _ ?s ?tr] cnt
          by (cases r) (simp_all add: Let_def)
      qed
    next
      case Generate
      then show ?thesis using Inr Suc.IH[of Evaluate ?s ?tr] by (simp add: Let_def)
    next
      case Reflect
      then show ?thesis using Inr Suc.IH[of Generate ?s ?tr] by (simp add: Let_def)
    next
      case Finalize
      then show ?thesis using Inr by (simp add: Let_def)
    qed
  qed
qed

text \<open>
  C5, as the code has it. Once \<^verbatim>\<open>search_results\<close> holds a non-empty string, the
  failure sentinel included, the router never returns \<^verbatim>\<open>search\<close>, whatever
  \<^verbatim>\<open>needs_search\<close> says. In every run, finished or not, whose search tool never
  returns an empty list, the search step is invoked at most once.
\<close>

theorem search_at_most_once:
  "(str_truthy (search_results state) \<longrightarrow> should_continue state \<noteq> Inr ToSearch)
   \<and> ((\<forall>k q. search_invoke e k q \<noteq> Inr [])
        \<longrightarrow> count_list (trace_of (run e fuel state)) Search \<le> 1)"
  using truthy_results_block_search searches_at_most_one_more[of e fuel Generate state "[]"]
  by (auto simp: run_def)

lemma sentinel_run_trace:
  \<open>trace_of (run (example_env ''{"score": 3, "is_acceptable": false, "needs_search": true}''
        (Inl CollaboratorError)) 25 (start_state ''Why?'' 3))
     = [Generate, Evaluate, Search, Generate, Evaluate, Reflect, Generate, Evaluate, Finalize]\<close>
  by code_simp

text \<open>A run whose search tool raises: one search, then reflections.\<close>

theorem search_at_most_once_witness:
  \<open>should_continue (router_state 1 3 [(''needs_search'', JBool True)] (Some ''Search unavailable''))
      \<noteq> Inr ToSearch
   \<and> count_list (trace_of (run (example_env ''{"score": 3, "is_acceptable": false, "needs_search": true}''
        (Inl CollaboratorError)) 25 (start_state ''Why?'' 3))) Search = 1\<close>
  using search_at_most_once[of "router_state 1 3 [(''needs_search'', JBool True)] (Some ''Search unavailable'')"]
    search_at_most_once[of "start_state ''Why?'' 3"
        \<open>example_env ''{"score": 3, "is_acceptable": false, "needs_search": true}''
        (Inl CollaboratorError)\<close> 25]
    sentinel_run_trace
  by (simp add: router_state_simps str_truthy_def example_env_simps)

text \<open>
  C5 as stated fails when the tool finds nothing: \<^verbatim>\<open>search_results\<close> is then set to
  the empty string, and the next evaluation that asks for a search gets one again.
\<close>

theorem repeated_search_counterexample:
  \<open>trace_of (run (example_env ''{"score": 3, "is_acceptable": false, "needs_search": true}'' (Inr []))
       25 (start_state ''Why?'' 3))
     = [Generate, Evaluate, Search, Generate, Evaluate, Search, Generate, Evaluate, Finalize]\<close>
  by code_simp

section \<open>Properties of the extraction\<close>

lemmas ms_basic = ms.simps(1) ms.simps(2) ms.simps(3) ms.simps(4)



lemma ms_Lit_char: "ms (Lit [c]) s = (case s of [] \<Rightarrow> [] | d # ds \<Rightarrow> if d = c then [ds] else [])"
  by (cases s) (auto simp: ms_basic)

lemma star_cls_step:
  "p x \<Longrightarrow> ms (Star (Cls p)) (x # xs) = ms (Star (Cls p)) xs @ [x # xs]"
  by (subst ms.simps) (simp add: ms_basic)


lemma star_cls_nil: "ms (Star (Cls p)) [] = [[]]"
  by (subst ms.simps) (simp add: ms_basic)


lemma star_cls_end:
  assumes "\<forall>c\<in>set xs. p c"
  shows "\<exists>zs. ms (Star (Cls p)) xs = [] # zs"
  using assms
proof (induction xs)
  case Nil
  then show ?case by (simp add: star_cls_nil)
next
  case (Cons x xs)
  then obtain zs where "ms (Star (Cls p)) xs = [] # zs" by auto
  then show ?case using Cons.prems by (simp add: star_cls_step)
qed














lemma brace_re_empty: "ms brace_re [] = []"
  by (simp add: brace_re_def ms_basic)























section \<open>Properties of the session store\<close>

lemma replace_session_found:
  assumes "\<forall>y\<in>set before. session_id y \<noteq> session_id sd" and "session_id x = session_id sd"
  shows "replace_session sd (before @ x # after) = Some (before @ sd # after)"
  using assms by (induction before) auto

lemma replace_session_missing:
  assumes "\<forall>y\<in>set xs. session_id y \<noteq> session_id sd"
  shows "replace_session sd xs = None"
  using assms by (induction xs) auto

lemma find_first_with_id:
  assumes "\<forall>y\<in>set before. session_id y \<noteq> sid" and "session_id x = sid"
  shows "find (\<lambda>y. session_id y = sid) (before @ x # after) = Some x"
  using assms by (induction before) auto

lemma split_first_with_id:
  assumes "\<exists>y\<in>set xs. session_id y = sid"
  shows "\<exists>before x after. xs = before @ x # after \<and> session_id x = sid
           \<and> (\<forall>y\<in>set before. session_id y \<noteq> sid)"
  using assms
proof (induction xs)
  case Nil
  then show ?case by simp
next
  case (Cons a xs)
  show ?case
  proof (cases "session_id a = sid")
    case True
    then have "a # xs = [] @ a # xs \<and> session_id a = sid \<and> (\<forall>y\<in>set []. session_id y \<noteq> sid)"
      by simp
    then show ?thesis by blast
  next
    case False
    then obtain before x after where "xs = before @ x # after" "session_id x = sid"
        "\<forall>y\<in>set before. session_id y \<noteq> sid"
      using Cons by auto
    then have "a # xs = (a # before) @ x # after \<and> session_id x = sid
        \<and> (\<forall>y\<in>set (a # before). session_id y \<noteq> sid)"
      using False by simp
    then show ?thesis by blast
  qed
qed

lemma create_session_newest:
  assumes "\<forall>y\<in>set (get_or (session_file m) []). \<exists>t. timestamp y = Some t \<and> t < now"
  shows "\<exists>x. newest sid now x (create_session m sid now q) \<and> session_question x = Some q
           \<and> states x = []"
proof -
  let ?new = "\<lparr>session_id = sid, timestamp = Some now, session_question = Some q, states = [],
         session_final_answer = None,
         metadata = \<lparr>total_iterations = Some 0, search_used = Some False,
                      reflection_count = Some 0\<rparr>,
         complete_state = None\<rparr>"
  let ?old = "get_or (session_file m) []"
  have "\<exists>before after. save_session (session_file m) ?new = Some (before @ ?new # after)
            \<and> (\<forall>y\<in>set before. session_id y \<noteq> sid)
            \<and> (\<forall>y\<in>set (before @ after). \<exists>t. timestamp y = Some t \<and> t < now)"
  proof (cases "\<exists>y\<in>set ?old. session_id y = sid")
    case True
    then obtain before x after where sp: "?old = before @ x # after" "session_id x = sid"
        "\<forall>y\<in>set before. session_id y \<noteq> sid"
      using split_first_with_id by blast
    then have "replace_session ?new ?old = Some (before @ ?new # after)"
      using replace_session_found[of before ?new x after] by simp
    moreover have "\<forall>y\<in>set (before @ after). \<exists>t. timestamp y = Some t \<and> t < now"
      using assms sp(1) by auto
    ultimately show ?thesis using sp(3) by (auto simp: save_session_def Let_def)
  next
    case False
    then have "replace_session ?new ?old = None"
      using replace_session_missing[of ?old ?new] by simp
    then have "save_session (session_file m) ?new = Some (?old @ ?new # [])"
      by (simp add: save_session_def Let_def)
    then show ?thesis using False assms by fastforce
  qed
  then obtain before after where
      "save_session (session_file m) ?new = Some (before @ ?new # after)"
      "\<forall>y\<in>set before. session_id y \<noteq> sid"
      "\<forall>y\<in>set (before @ after). \<exists>t. timestamp y = Some t \<and> t < now"
    by blast
  then have "newest sid now ?new (create_session m sid now q)"
    unfolding newest_def create_session_def by simp blast
  then show ?thesis by (intro exI[of _ ?new]) simp
qed

lemma update_newest:
  assumes "newest sid now x m" and "sid \<noteq> []"
    and "session_id (f x) = sid" and "timestamp (f x) = Some now"
  shows "load_session (session_file m) (get_or (current_session_id m) []) = x"
    and "newest sid now (f x) (m\<lparr>session_file := save_session (session_file m) (f x)\<rparr>)"
proof -
  from assms(1) obtain before after where
    fl: "session_file m = Some (before @ x # after)"
    and before: "\<forall>y\<in>set before. session_id y \<noteq> sid"
    and others: "\<forall>y\<in>set (before @ after). \<exists>t. timestamp y = Some t \<and> t < now"
    and cur: "current_session_id m = Some sid" and idx: "session_id x = sid"
    by (auto simp: newest_def)
  show "load_session (session_file m) (get_or (current_session_id m) []) = x"
    using fl cur before idx find_first_with_id[of before sid x after]
    by (simp add: load_session_def get_or_def)
  have "replace_session (f x) (before @ x # after) = Some (before @ f x # after)"
    using replace_session_found[of before "f x" x after] before idx assms(3) by simp
  then have "save_session (session_file m) (f x) = Some (before @ f x # after)"
    using fl by (simp add: save_session_def Let_def get_or_def)
  then show "newest sid now (f x) (m\<lparr>session_file := save_session (session_file m) (f x)\<rparr>)"
    using before others cur assms(3,4) by (auto simp: newest_def)
qed

lemma log_state_newest:
  assumes "newest sid now x m" and "sid \<noteq> []"
  shows "\<exists>x'. newest sid now x' (log_state m t nd st) \<and> session_question x' = session_question x
           \<and> length (states x') = Suc (length (states x))"
proof -
  let ?entry = "\<lparr>entry_timestamp = t, entry_node = nd,
                entry_iteration = get_or (iteration_count st) 0,
                has_draft = str_truthy (draft_answer st),
                has_evaluation = (get_or (evaluation st) [] \<noteq> []),
                has_search = str_truthy (search_results st),
                entry_reflection_count = length (get_or (reflections st) []),
                evaluation_score = dict_get (get_or (evaluation st) []) ''score'' JNull\<rparr>"
  let ?f = "\<lambda>sd. sd\<lparr>states := states sd @ [?entry],
                    metadata := \<lparr>total_iterations = Some (get_or (iteration_count st) 0),
                                 search_used = Some (str_truthy (search_results st)),
                                 reflection_count =
                                   Some (length (get_or (reflections st) []))\<rparr>\<rparr>"
  have cur: "str_truthy (current_session_id m)"
    using assms by (simp add: newest_def str_truthy_def)
  have ld: "load_session (session_file m) (get_or (current_session_id m) []) = x"
    using update_newest(1)[OF assms, of "\<lambda>x. x"] assms(1) by (simp add: newest_def)
  have "newest sid now (?f x) (m\<lparr>session_file := save_session (session_file m) (?f x)\<rparr>)"
    using update_newest(2)[OF assms, of ?f] assms(1) by (simp add: newest_def)
  moreover have "log_state m t nd st = m\<lparr>session_file := save_session (session_file m) (?f x)\<rparr>"
    using cur ld by (simp add: log_state_def Let_def)
  ultimately show ?thesis by (intro exI[of _ "?f x"]) simp
qed

lemma log_all_newest:
  assumes "newest sid now x m" and "sid \<noteq> []"
  shows "\<exists>x'. newest sid now x' (log_all m logs) \<and> session_question x' = session_question x
           \<and> length (states x') = length (states x) + length logs"
  using assms(1)
proof (induction logs arbitrary: x m)
  case Nil
  then show ?case by (auto simp: log_all_def)
next
  case (Cons l logs)
  obtain t nd st where l: "l = (t, nd, st)" by (cases l) auto
  obtain x1 where x1: "newest sid now x1 (log_state m t nd st)"
      "session_question x1 = session_question x" "length (states x1) = Suc (length (states x))"
    using log_state_newest[OF Cons.prems assms(2)] by blast
  obtain x' where "newest sid now x' (log_all (log_state m t nd st) logs)"
      "session_question x' = session_question x1"
      "length (states x') = length (states x1) + length logs"
    using Cons.IH[OF x1(1)] by blast
  then show ?case using x1 l by (auto simp: log_all_def)
qed

lemma save_final_newest:
  assumes "newest sid now x m" and "sid \<noteq> []"
  shows "\<exists>x'. newest sid now x' (save_final_answer m answer full) \<and> session_question x' = session_question x
           \<and> states x' = states x \<and> session_final_answer x' = Some answer"
proof -
  let ?f = "\<lambda>sd. sd\<lparr>session_final_answer := Some answer,
                    complete_state := Some
                      \<lparr>snap_question = question full,
                       snap_final_answer = final_answer full,
                       snap_iterations = iteration_count full,
                       snap_reflections = get_or (reflections full) [],
                       snap_evaluation = evaluation full\<rparr>\<rparr>"
  have cur: "str_truthy (current_session_id m)"
    using assms by (simp add: newest_def str_truthy_def)
  have ld: "load_session (session_file m) (get_or (current_session_id m) []) = x"
    using update_newest(1)[OF assms, of "\<lambda>x. x"] assms(1) by (simp add: newest_def)
  have "newest sid now (?f x) (m\<lparr>session_file := save_session (session_file m) (?f x)\<rparr>)"
    using update_newest(2)[OF assms, of ?f] assms(1) by (simp add: newest_def)
  moreover have "save_final_answer m answer full = m\<lparr>session_file := save_session (session_file m) (?f x)\<rparr>"
    using cur ld by (simp add: save_final_answer_def Let_def)
  ultimately show ?thesis by (intro exI[of _ "?f x"]) simp
qed


lemma insert_desc_greatest:
  "\<forall>y\<in>set ys. ts_key y < ts_key x \<Longrightarrow> insert_desc x ys = x # ys"
  by (cases ys) auto

lemma foldr_insert_below:
  "\<forall>p\<in>set ps. ts_key p < ts_key x \<Longrightarrow>
     foldr insert_desc ps (x # zs) = x # foldr insert_desc ps zs"
  by (induction ps) auto

lemma set_insert_desc: "set (insert_desc x ys) = insert x (set ys)"
  by (induction ys) auto

lemma set_sort_desc: "set (foldr insert_desc xs []) = set xs"
  by (induction xs) (auto simp: set_insert_desc)

lemma mset_insert_desc: "mset (insert_desc x ys) = add_mset x (mset ys)"
  by (induction ys) auto

lemma mset_sort_desc: "mset (sort_desc xs) = mset xs"
  unfolding sort_desc_def by (induction xs) (auto simp: mset_insert_desc)

lemma sorted_insert_desc: "newest_first ys \<Longrightarrow> newest_first (insert_desc x ys)"
  by (induction ys) (auto simp: set_insert_desc)

lemma sorted_sort_desc: "newest_first (sort_desc xs)"
  unfolding sort_desc_def by (induction xs) (auto simp: sorted_insert_desc)

lemma sort_desc_newest_first:
  assumes "\<forall>y\<in>set (before @ after). ts_key y < ts_key x"
  shows "sort_desc (before @ x # after) = x # sort_desc (before @ after)"
proof -
  have "insert_desc x (foldr insert_desc after []) = x # foldr insert_desc after []"
    using assms by (intro insert_desc_greatest) (simp add: set_sort_desc)
  then show ?thesis
    using assms foldr_insert_below[of before x] by (simp add: sort_desc_def)
qed

lemma history_of_newest:
  assumes "newest sid now x m"
  shows "get_session_history m 1 = Inr [x]"
proof -
  from assms obtain before after where
    fl: "session_file m = Some (before @ x # after)"
    and others: "\<forall>y\<in>set (before @ after). \<exists>t. timestamp y = Some t \<and> t < now"
    and ts: "timestamp x = Some now"
    by (auto simp: newest_def)
  have "\<forall>y\<in>set (before @ after). ts_key y < ts_key x"
    using others ts by (fastforce simp: ts_key_def get_or_def)
  then have "sort_desc (before @ x # after) = x # sort_desc (before @ after)"
    by (rule sort_desc_newest_first)
  moreover have "\<not> list_ex (\<lambda>y. timestamp y = None) (before @ x # after)"
    using others ts by (auto simp: list_ex_iff)
  ultimately show ?thesis
    using fl by (simp add: get_session_history_def get_or_def py_slice_to_def Let_def)
qed

text \<open>
  C8, as the code has it. When every session already in the store has a timestamp
  earlier than the clock reading of \<^verbatim>\<open>create_session\<close> (and the identifier, a
  formatted date, is not the empty string), then after the creation, any
  number of \<^verbatim>\<open>log_state\<close> calls and \<^verbatim>\<open>save_final_answer\<close>,
  \<^verbatim>\<open>get_session_history(1)\<close> returns exactly the created session, with the question
  and the final answer that were written and one state per log. For a limit that is
  not negative, \<^verbatim>\<open>get_session_history\<close> returns the first \<open>limit\<close> sessions of the
  store sorted by timestamp, newest first, so at most \<open>limit\<close> of them.
\<close>

theorem session_round_trip:
  "(sid \<noteq> [] \<and> (\<forall>y\<in>set (get_or (session_file m) []). \<exists>t. timestamp y = Some t \<and> t < now)
     \<longrightarrow> (\<exists>x. get_session_history
                 (save_final_answer (log_all (create_session m sid now q) logs) answer full) 1
               = Inr [x]
             \<and> session_question x = Some q \<and> session_final_answer x = Some answer
             \<and> length (states x) = length logs))
   \<and> (0 \<le> limit \<and> get_session_history m limit = Inr xs
     \<longrightarrow> xs = take (nat limit) (sort_desc (get_or (session_file m) []))
       \<and> newest_first (sort_desc (get_or (session_file m) []))
       \<and> mset (sort_desc (get_or (session_file m) [])) = mset (get_or (session_file m) [])
       \<and> int (length xs) \<le> limit)"
proof (intro conjI impI)
  assume a: "sid \<noteq> [] \<and> (\<forall>y\<in>set (get_or (session_file m) []). \<exists>t. timestamp y = Some t \<and> t < now)"
  then obtain x0 where x0: "newest sid now x0 (create_session m sid now q)"
      "session_question x0 = Some q" "states x0 = []"
    using create_session_newest by blast
  obtain x1 where x1: "newest sid now x1 (log_all (create_session m sid now q) logs)"
      "session_question x1 = session_question x0"
      "length (states x1) = length (states x0) + length logs"
    using log_all_newest[OF x0(1)] a by blast
  obtain x2 where x2:
      "newest sid now x2 (save_final_answer (log_all (create_session m sid now q) logs) answer full)"
      "session_question x2 = session_question x1" "states x2 = states x1"
      "session_final_answer x2 = Some answer"
    using save_final_newest[OF x1(1)] a by blast
  show "\<exists>x. get_session_history
                 (save_final_answer (log_all (create_session m sid now q) logs) answer full) 1
               = Inr [x]
             \<and> session_question x = Some q \<and> session_final_answer x = Some answer
             \<and> length (states x) = length logs"
    using history_of_newest[OF x2(1)] x0 x1 x2 by (intro exI[of _ x2]) simp
next
  assume b: "0 \<le> limit \<and> get_session_history m limit = Inr xs"
  then show "xs = take (nat limit) (sort_desc (get_or (session_file m) []))"
    by (auto simp: get_session_history_def py_slice_to_def Let_def split: if_splits)
  then show "int (length xs) \<le> limit" using b by (simp add: min_def) arith
qed (simp_all add: sorted_sort_desc mset_sort_desc)

lemma example_manager_view:
  "history_view (example_manager older_session) 1 = Inr [(Some ''New?'', Some ''42'')]"
  by code_simp

text \<open>A store that holds an older session.\<close>

theorem session_round_trip_witness:
  "history_view (example_manager older_session) 1 = Inr [(Some ''New?'', Some ''42'')]
   \<and> history_view (example_manager older_session) 2
        = Inr [(Some ''New?'', Some ''42''), (Some ''Older?'', None)]"
proof -
  let ?m = "\<lparr>current_session_id = None, session_file = Some [older_session]\<rparr>"
  have old: "\<forall>y\<in>set (get_or (session_file ?m) []).
      \<exists>t. timestamp y = Some t \<and> t < ''2025-01-01T10:00:00.000123''"
    by (simp add: get_or_def older_session_def skeleton_def)
  obtain x where "get_session_history (example_manager older_session) 1 = Inr [x]"
      "session_question x = Some ''New?''" "session_final_answer x = Some ''42''"
    using session_round_trip[THEN conjunct1, of "''20250101_100000''" ?m
        "''2025-01-01T10:00:00.000123''" "''New?''"
        "[(''2025-01-01T10:00:01.000456'', ''generate_answer'', asked ''New?'' ''Draft'')]"
        "''42''" "asked ''New?'' ''Draft''"] old
    unfolding example_manager_def by auto
  then have "history_view (example_manager older_session) 1 = Inr [(Some ''New?'', Some ''42'')]"
    by (simp add: history_view_def)
  moreover have "history_view (example_manager older_session) 2
        = Inr [(Some ''New?'', Some ''42''), (Some ''Older?'', None)]"
    by code_simp
  ultimately show ?thesis by simp
qed

text \<open>
  C8 as stated fails on a store that holds a session with a later timestamp (the clock
  is the local time, which can go back): \<^verbatim>\<open>get_session_history(1)\<close> returns that
  session. And with the limit -1 it returns one session of the two, more than the limit.
\<close>

theorem session_round_trip_counterexample:
  "history_view (example_manager old_session) 1 = Inr [(Some ''Old?'', None)]
   \<and> history_view (example_manager old_session) (- 1) = Inr [(Some ''Old?'', None)]"
  by code_simp

end
